theory Spec2Isabelle
  imports Complex_Main
begin

section \<open>Numbers\<close>

text \<open>
  The component computes with JavaScript numbers, which are binary64 floating-point numbers.
  Two of its functions turn such numbers into integers: \<open>lerpColors\<close> rounds a blend to a
  colour channel, and the path sampling takes the ceiling of a quotient as the number of
  samples. Which integer comes out depends on the rounding of each arithmetic operation, so
  these two functions are modelled with it: a finite double is the \<^typ>\<open>real\<close> it denotes,
  a decimal literal is the double nearest to it, and every operation returns its exact
  result rounded to 53 significant bits, ties to the even significand. The exponent range is
  not bounded in the model (no overflow, no subnormal numbers, no signed zero); the values of
  these two functions stay far inside the normal range.

  The per-frame tick compares and assigns real-valued state; there the constants
  (0.3, 0.001, 12, 2.5) are the rationals they are written as, \<open>Math.exp\<close> is the real
  exponential, and rounding is not part of the model. Integer colour channels and day
  numbers are \<^typ>\<open>int\<close>.
\<close>

subsection \<open>Binary64 rounding\<close>

text \<open>\<open>expo x\<close> is the exponent of a positive number: \<open>2 ^ expo x \<le> x < 2 ^ (expo x + 1)\<close>.\<close>

function expo :: "real \<Rightarrow> int" where
  "expo x = (if x \<le> 0 then 0
             else if 2 \<le> x then expo (x / 2) + 1
             else if x < 1 then expo (2 * x) - 1
             else 0)"
  by pat_completeness auto
termination
proof (relation "measure (\<lambda>x. nat \<bar>\<lfloor>log 2 x\<rfloor>\<bar>)")
  show "wf (measure (\<lambda>x. nat \<bar>\<lfloor>log 2 x\<rfloor>\<bar>))" by simp
next
  fix x :: real
  assume "\<not> x \<le> 0" and x: "2 \<le> x"
  then have "log 2 (x / 2) = log 2 x - 1" by (simp add: log_divide)
  moreover have "1 \<le> log 2 x" using x by (simp add: le_log_iff)
  ultimately have "\<lfloor>log 2 (x / 2)\<rfloor> = \<lfloor>log 2 x\<rfloor> - 1" and "1 \<le> \<lfloor>log 2 x\<rfloor>"
    by (simp_all add: le_floor_iff)
  then show "(x / 2, x) \<in> measure (\<lambda>x. nat \<bar>\<lfloor>log 2 x\<rfloor>\<bar>)" by simp
next
  fix x :: real
  assume pos: "\<not> x \<le> 0" and "\<not> 2 \<le> x" and x: "x < 1"
  then have "log 2 (2 * x) = log 2 x + 1" by (simp add: log_mult)
  moreover have "log 2 x < 0" using pos x by simp
  ultimately have "\<lfloor>log 2 (2 * x)\<rfloor> = \<lfloor>log 2 x\<rfloor> + 1" and "\<lfloor>log 2 x\<rfloor> \<le> - 1"
    by (simp_all add: floor_le_iff)
  then show "(2 * x, x) \<in> measure (\<lambda>x. nat \<bar>\<lfloor>log 2 x\<rfloor>\<bar>)" by simp
qed

declare expo.simps [simp del]

definition round_even :: "real \<Rightarrow> int" where
  \<comment> \<open>the nearest integer, a half going to the even neighbour\<close>
  "round_even y =
     (let n = \<lfloor>y\<rfloor>; r = y - of_int n in
      if r < 1 / 2 then n else if 1 / 2 < r then n + 1 else if even n then n else n + 1)"

definition rnd :: "real \<Rightarrow> real" where
  \<comment> \<open>the double nearest to \<open>x\<close>: \<open>x\<close> is scaled to a significand in \<open>[2^52, 2^53)\<close>, which is
      rounded to an integer\<close>
  "rnd x =
     (if x = 0 then 0
      else (let u = 2 powi (expo \<bar>x\<bar> - 52) in of_int (round_even (x / u)) * u))"

definition fadd :: "real \<Rightarrow> real \<Rightarrow> real" where
  "fadd a b = rnd (a + b)"

definition fsub :: "real \<Rightarrow> real \<Rightarrow> real" where
  "fsub a b = rnd (a - b)"

definition fmul :: "real \<Rightarrow> real \<Rightarrow> real" where
  "fmul a b = rnd (a * b)"

definition fdiv :: "real \<Rightarrow> real \<Rightarrow> real" where
  "fdiv a b = rnd (a / b)"

definition Math_round :: "real \<Rightarrow> int" where
  \<comment> \<open>\<open>Math.round\<close>: the integer nearest to the value of its argument, a half rounded
      towards plus infinity.\<close>
  "Math_round x = \<lfloor>x + 1 / 2\<rfloor>"

section \<open>Colours\<close>

text \<open>
  A colour is the three-element array \<open>[r, g, b]\<close> the source writes everywhere and that
  \<open>rgb(c)\<close> reads as \<open>c[0], c[1], c[2]\<close>. Its channels are integers, which as doubles are
  exact.
\<close>

type_synonym rgb = "int \<times> int \<times> int"

definition TRACK_RGB :: "rgb list" where
  "TRACK_RGB = [(249, 174, 119), (236, 203, 96), (146, 191, 219), (196, 185, 224)]"

definition BG_RGB :: "rgb list" where
  "BG_RGB = [(255, 231, 206), (250, 238, 198), (225, 236, 235), (240, 234, 236)]"

datatype js_fault = TypeError

definition at_index :: "'a list \<Rightarrow> nat \<Rightarrow> 'a option" where
  \<comment> \<open>\<open>xs[i]\<close> of a JavaScript array: \<open>undefined\<close> (here \<open>None\<close>) out of range.\<close>
  "at_index xs i = (if i < length xs then Some (xs ! i) else None)"

subsection \<open>lerpColors\<close>

definition boundaries :: "real list" where
  \<comment> \<open>\<open>[0.25, 0.5, 0.75]\<close>, each a double\<close>
  "boundaries = [1 / 4, 1 / 2, 3 / 4]"

definition halfTrans :: real where
  \<comment> \<open>the literal \<open>0.035\<close>\<close>
  "halfTrans = rnd (35 / 1000)"

definition smoothstep :: "real \<Rightarrow> real" where
  \<comment> \<open>\<open>f * f * (3 - 2 * f)\<close>\<close>
  "smoothstep f = fmul (fmul f f) (fsub 3 (fmul 2 f))"

definition mix_channel :: "int \<Rightarrow> int \<Rightarrow> real \<Rightarrow> int" where
  \<comment> \<open>\<open>Math.round(v + (w - v) * s)\<close>\<close>
  "mix_channel v w s = Math_round (fadd (of_int v) (fmul (fsub (of_int w) (of_int v)) s))"

fun blend :: "rgb \<Rightarrow> rgb \<Rightarrow> real \<Rightarrow> rgb" where
  \<comment> \<open>\<open>palette[b].map((v, k) => Math.round(v + (palette[b + 1][k] - v) * s))\<close>\<close>
  "blend (r, g, b) (r', g', b') s = (mix_channel r r' s, mix_channel g g' s, mix_channel b b' s)"

text \<open>
  The \<open>for\<close> loop over the boundaries: \<open>b\<close> is the loop index, the list holds the boundaries
  still to visit, \<open>c\<close> is the variable \<open>c\<close> (\<open>None\<close> when it holds \<open>undefined\<close>).
  \<open>palette[b].map\<close> on a missing entry, and \<open>palette[b + 1][k]\<close> on a missing entry,
  throw a TypeError.
\<close>

fun lerp_loop :: "rgb list \<Rightarrow> real \<Rightarrow> nat \<Rightarrow> real list \<Rightarrow> rgb option \<Rightarrow> js_fault + rgb option" where
  "lerp_loop palette t b [] c = Inr c"
| "lerp_loop palette t b (bd # bds) c =
     (if t > fadd bd halfTrans then
        lerp_loop palette t (Suc b) bds (at_index palette (Suc b))
      else if t > fsub bd halfTrans then
        (case (at_index palette b, at_index palette (Suc b)) of
           (Some v, Some w) \<Rightarrow>
             let f = fdiv (fsub t (fsub bd halfTrans)) (fmul 2 halfTrans);
                 s = smoothstep f
             in lerp_loop palette t (Suc b) bds (Some (blend v w s))
         | _ \<Rightarrow> Inl TypeError)
      else lerp_loop palette t (Suc b) bds c)"

definition lerpColors :: "rgb list \<Rightarrow> real \<Rightarrow> js_fault + rgb option" where
  "lerpColors palette t = lerp_loop palette t 0 boundaries (at_index palette 0)"

section \<open>The animation state and the per-frame tick\<close>

text \<open>
  \<open>dayTransitionRef.current\<close> is \<open>null\<close> or an object \<open>{ fromColor, fade }\<close>;
  \<open>displayRef\<close>, \<open>targetRef\<close> and \<open>prevDayNumRef\<close> are the other refs the effects write.
\<close>

record crossfade =
  fromColor :: "rgb option"
  fade :: real

record anim =
  displayed :: real
  target :: real
  dayTransition :: "crossfade option"
  prevDayNum :: int

definition EASE :: real where
  "EASE = 12"

definition frame_dt :: "real \<Rightarrow> real \<Rightarrow> real" where
  \<comment> \<open>\<open>lastTime ? Math.min((now - lastTime) / 1000, 0.05) : 0.016\<close>\<close>
  "frame_dt lastTime now =
     (if lastTime \<noteq> 0 then min ((now - lastTime) / 1000) (5 / 100) else 16 / 1000)"

definition advance_crossfade :: "real \<Rightarrow> crossfade option \<Rightarrow> crossfade option" where
  \<comment> \<open>the block \<open>if (trans && trans.fade < 1) { ... }\<close> of \<open>tick\<close>\<close>
  "advance_crossfade dt tr =
     (case tr of
        None \<Rightarrow> None
      | Some c \<Rightarrow>
          if fade c < 1 then
            (let f = min (fade c + dt * (25 / 10)) 1
             in if f \<ge> 1 then None else Some (c\<lparr>fade := f\<rparr>))
          else Some c)"

definition ease :: "real \<Rightarrow> real \<Rightarrow> real \<Rightarrow> real" where
  \<comment> \<open>the new \<open>displayRef.current\<close>, from \<open>dt\<close>, \<open>targetRef.current\<close> and \<open>displayRef.current\<close>\<close>
  "ease dt tgt current =
     (let diff = tgt - current in
      if diff < - (3 / 10) then tgt
      else
        (let step = 1 - exp (- EASE * dt);
             d = current + diff * step
         in if \<bar>diff\<bar> < 1 / 1000 then tgt else d))"

definition tick :: "real \<Rightarrow> anim \<Rightarrow> anim" where
  \<comment> \<open>One frame with elapsed time \<open>dt\<close>. The writes to the dot element that follow in the
      source read the refs and change none of them.\<close>
  "tick dt st =
     st\<lparr>dayTransition := advance_crossfade dt (dayTransition st),
        displayed := ease dt (target st) (displayed st)\<rparr>"

fun ticks :: "nat \<Rightarrow> real \<Rightarrow> anim \<Rightarrow> anim" where
  "ticks 0 dt st = st"
| "ticks (Suc n) dt st = ticks n dt (tick dt st)"

subsection \<open>The day-backward effect\<close>

definition render_target :: "real \<Rightarrow> anim \<Rightarrow> anim" where
  \<comment> \<open>\<open>targetRef.current = progress\<close>, in the body of every render\<close>
  "render_target progress st = st\<lparr>target := progress\<rparr>"

text \<open>
  The body of the effect with dependencies \<open>[dayNumber, progress]\<close>. It leaves
  \<open>prevDayNumRef.current = dayNumber\<close> behind, so a run with an unchanged day number
  changes nothing.
\<close>

definition dayBackwardEffect :: "int \<Rightarrow> real \<Rightarrow> anim \<Rightarrow> js_fault + anim" where
  "dayBackwardEffect dayNum progress st =
     (if dayNum \<noteq> prevDayNum st then
        (if dayNum < prevDayNum st then
           (case lerpColors TRACK_RGB 0 of
              Inl e \<Rightarrow> Inl e
            | Inr c \<Rightarrow>
                Inr (st\<lparr>displayed := progress, target := progress,
                        dayTransition := Some \<lparr>fromColor = c, fade = 0\<rparr>,
                        prevDayNum := dayNum\<rparr>))
         else Inr (st\<lparr>prevDayNum := dayNum\<rparr>))
      else Inr st)"

definition observe :: "int \<Rightarrow> real \<Rightarrow> anim \<Rightarrow> js_fault + anim" where
  \<comment> \<open>a render with the props \<open>dayNumber\<close> and \<open>progress\<close>, then its effect\<close>
  "observe dayNum progress st = dayBackwardEffect dayNum progress (render_target progress st)"

subsection \<open>The closed form of the easing run of the convergence property\<close>

definition ease_residue :: "nat \<Rightarrow> real" where
  \<comment> \<open>the factor \<open>e^(-12 * 0.016 * n)\<close> left of the initial distance after \<open>n\<close> easing steps\<close>
  "ease_residue n = exp (- (192 / 1000) * real n)"

section \<open>The colour interpolator as the specification words it\<close>

text \<open>
  The reference definition, in exact arithmetic and with definitions of its own: inside the
  window of half-width 0.035 around a boundary the two adjacent palette entries are blended
  with the smoothstep \<open>f\<^sup>2 (3 - 2 f)\<close> of the local fraction
  \<open>f = (t - (boundary - 0.035)) / 0.07\<close>; elsewhere the result is the palette entry of the
  band, which is the number of boundaries below \<open>t\<close>. \<open>colorAt_exact\<close> is the blend before
  rounding, \<open>colorAt_spec\<close> rounds it to integer channels.
\<close>

definition window_fraction :: "real \<Rightarrow> real \<Rightarrow> real" where
  "window_fraction bd t = (t - (bd - 35 / 1000)) / (7 / 100)"

definition smoothstep_spec :: "real \<Rightarrow> real" where
  "smoothstep_spec f = f\<^sup>2 * (3 - 2 * f)"

definition band_of :: "real \<Rightarrow> nat" where
  "band_of t = length (filter (\<lambda>bd. bd < t) [1 / 4, 1 / 2, 3 / 4])"

fun blend_exact :: "rgb \<Rightarrow> rgb \<Rightarrow> real \<Rightarrow> real \<times> real \<times> real" where
  "blend_exact (r, g, b) (r', g', b') s =
     (of_int r + (of_int r' - of_int r) * s,
      of_int g + (of_int g' - of_int g) * s,
      of_int b + (of_int b' - of_int b) * s)"

fun exact_of :: "rgb \<Rightarrow> real \<times> real \<times> real" where
  "exact_of (r, g, b) = (of_int r, of_int g, of_int b)"

definition colorAt_exact :: "rgb list \<Rightarrow> real \<Rightarrow> real \<times> real \<times> real" where
  "colorAt_exact palette t =
     (if \<bar>t - 1 / 4\<bar> \<le> 35 / 1000 then
        blend_exact (palette ! 0) (palette ! 1) (smoothstep_spec (window_fraction (1 / 4) t))
      else if \<bar>t - 1 / 2\<bar> \<le> 35 / 1000 then
        blend_exact (palette ! 1) (palette ! 2) (smoothstep_spec (window_fraction (1 / 2) t))
      else if \<bar>t - 3 / 4\<bar> \<le> 35 / 1000 then
        blend_exact (palette ! 2) (palette ! 3) (smoothstep_spec (window_fraction (3 / 4) t))
      else exact_of (palette ! band_of t))"

fun round_channels :: "real \<times> real \<times> real \<Rightarrow> rgb" where
  "round_channels (x, y, z) = (round x, round y, round z)"

definition colorAt_spec :: "rgb list \<Rightarrow> real \<Rightarrow> rgb" where
  "colorAt_spec palette t = round_channels (colorAt_exact palette t)"

text \<open>
  How a colour of the code is compared with the reference: channels in the RGB range,
  a channel within 1/2 + 1/10^9 of the exact blend (a rounding of a value that is within
  1/10^9 of it), the largest difference of two colours over the channels, and an exact
  blend that is more than 1/10^9 away from the middle between two integers.
\<close>

fun rgb_ok :: "rgb \<Rightarrow> bool" where
  "rgb_ok (r, g, b) = (0 \<le> r \<and> r \<le> 255 \<and> 0 \<le> g \<and> g \<le> 255 \<and> 0 \<le> b \<and> b \<le> 255)"

fun close_to :: "rgb \<Rightarrow> real \<times> real \<times> real \<Rightarrow> bool" where
  "close_to (r, g, b) (x, y, z) =
     (\<bar>of_int r - x\<bar> \<le> 1 / 2 + 1 / 10 ^ 9
      \<and> \<bar>of_int g - y\<bar> \<le> 1 / 2 + 1 / 10 ^ 9
      \<and> \<bar>of_int b - z\<bar> \<le> 1 / 2 + 1 / 10 ^ 9)"

fun channel_gap :: "rgb \<Rightarrow> rgb \<Rightarrow> int" where
  "channel_gap (r, g, b) (r', g', b') = max \<bar>r - r'\<bar> (max \<bar>g - g'\<bar> \<bar>b - b'\<bar>)"

definition clear_of_half :: "real \<Rightarrow> bool" where
  "clear_of_half x = (1 / 10 ^ 9 < \<bar>x - (of_int \<lfloor>x\<rfloor> + 1 / 2)\<bar>)"

fun all_clear_of_half :: "real \<times> real \<times> real \<Rightarrow> bool" where
  "all_clear_of_half (x, y, z) = (clear_of_half x \<and> clear_of_half y \<and> clear_of_half z)"

text \<open>
  For the comparison: the weight of the upper palette entry around one boundary as a
  function of every \<open>t\<close> (0 below the window, 1 above it), what the loop leaves for one
  channel after the iteration of one boundary, and a bound on the relative error of one
  rounding (1/2^53 is below it).
\<close>

definition ramp :: "real \<Rightarrow> real \<Rightarrow> real" where
  "ramp bd t =
     (if t \<le> bd - 35 / 1000 then 0
      else if bd + 35 / 1000 \<le> t then 1
      else smoothstep_spec (window_fraction bd t))"

definition window_channel :: "real \<Rightarrow> int \<Rightarrow> int \<Rightarrow> real \<Rightarrow> int" where
  "window_channel bd v w t =
     (if t > fadd bd halfTrans then w
      else if t > fsub bd halfTrans then
        mix_channel v w (smoothstep (fdiv (fsub t (fsub bd halfTrans)) (fmul 2 halfTrans)))
      else v)"

fun window_color :: "real \<Rightarrow> rgb \<Rightarrow> rgb \<Rightarrow> real \<Rightarrow> rgb" where
  "window_color bd (r, g, b) (r', g', b') t =
     (window_channel bd r r' t, window_channel bd g g' t, window_channel bd b b' t)"

definition err_unit :: real where
  "err_unit = 1 / 10 ^ 15"

section \<open>Path sampling\<close>

text \<open>
  The quotient \<open>i / n\<close> of the sampling loop is a JavaScript division: \<open>0 / 0\<close> is NaN and
  a positive number over zero is Infinity; otherwise it is the rounded quotient. The loop
  counter \<open>i\<close> and the count \<open>n\<close> are integers, exact as doubles while they are below
  2^53. The rendering surface is outside the component: the path enters as its
  total length and its \<open>getPointAtLength\<close>, a function from the number it is given to a
  point or a fault.
\<close>

datatype jsnum = Num real | NaN | Infinity

definition js_div :: "int \<Rightarrow> int \<Rightarrow> jsnum" where
  \<comment> \<open>\<open>i / n\<close> for \<open>0 \<le> i\<close> and \<open>0 \<le> n\<close>\<close>
  "js_div i n =
     (if n \<noteq> 0 then Num (fdiv (of_int i) (of_int n)) else if i = 0 then NaN else Infinity)"

definition js_times :: "jsnum \<Rightarrow> real \<Rightarrow> jsnum" where
  \<comment> \<open>\<open>t * totalLen\<close> for \<open>0 \<le> totalLen\<close>\<close>
  "js_times a len =
     (case a of
        Num r \<Rightarrow> Num (fmul r len)
      | NaN \<Rightarrow> NaN
      | Infinity \<Rightarrow> if len = 0 then NaN else Infinity)"

record samplePoint =
  sample_x :: real
  sample_y :: real
  sample_t :: jsnum

definition sample_step :: real where
  \<comment> \<open>the literal \<open>1.4\<close>\<close>
  "sample_step = rnd (14 / 10)"

fun sample_loop ::
  "(jsnum \<Rightarrow> js_fault + real \<times> real) \<Rightarrow> real \<Rightarrow> int \<Rightarrow> int list \<Rightarrow> samplePoint list
     \<Rightarrow> js_fault + samplePoint list" where
  "sample_loop getPointAtLength totalLen n [] pts = Inr pts"
| "sample_loop getPointAtLength totalLen n (i # rest) pts =
     (let t = js_div i n in
      case getPointAtLength (js_times t totalLen) of
        Inl e \<Rightarrow> Inl e
      | Inr (px, py) \<Rightarrow>
          sample_loop getPointAtLength totalLen n rest
            (pts @ [\<lparr>sample_x = px, sample_y = py, sample_t = t\<rparr>]))"

definition sample_count :: "real \<Rightarrow> int" where
  \<comment> \<open>\<open>n = Math.ceil(totalLen / step)\<close>\<close>
  "sample_count totalLen = \<lceil>fdiv totalLen sample_step\<rceil>"

definition samplePath ::
  "(jsnum \<Rightarrow> js_fault + real \<times> real) \<Rightarrow> real \<Rightarrow> js_fault + samplePoint list" where
  \<comment> \<open>\<open>for (i = 0; i <= n; i++)\<close>\<close>
  "samplePath getPointAtLength totalLen =
     (let n = sample_count totalLen
      in sample_loop getPointAtLength totalLen n [0..n] [])"

text \<open>The sample the loop appends for index \<open>i\<close> when \<open>n\<close> is not zero.\<close>

definition sample_at :: "(jsnum \<Rightarrow> js_fault + real \<times> real) \<Rightarrow> real \<Rightarrow> int \<Rightarrow> int \<Rightarrow> samplePoint" where
  "sample_at g totalLen n i =
     (case g (Num (fmul (fdiv (of_int i) (of_int n)) totalLen)) of
        Inr (px, py) \<Rightarrow>
          \<lparr>sample_x = px, sample_y = py, sample_t = Num (fdiv (of_int i) (of_int n))\<rparr>
      | Inl e \<Rightarrow> \<lparr>sample_x = 0, sample_y = 0, sample_t = Num (fdiv (of_int i) (of_int n))\<rparr>)"

definition strict_surface :: "jsnum \<Rightarrow> js_fault + real \<times> real" where
  \<comment> \<open>a surface that, as the interface definition of \<open>getPointAtLength(float)\<close> has it,
      refuses a non-finite argument with a TypeError\<close>
  "strict_surface d = (case d of Num r \<Rightarrow> Inr (r, 0) | _ \<Rightarrow> Inl TypeError)"

definition lenient_surface :: "jsnum \<Rightarrow> js_fault + real \<times> real" where
  \<comment> \<open>a surface that answers every argument\<close>
  "lenient_surface d = (case d of Num r \<Rightarrow> Inr (r, 0) | _ \<Rightarrow> Inr (0, 0))"

definition unit_interval :: "jsnum \<Rightarrow> bool" where
  "unit_interval a = (case a of Num r \<Rightarrow> 0 \<le> r \<and> r \<le> 1 | _ \<Rightarrow> False)"

section \<open>The label transition machine\<close>

text \<open>
  The label state of the component, with the browser's timer queue made explicit. Time is
  counted in milliseconds since mount, and a timer fires in the millisecond it is due.
  A timer's callback is a closure: the exit callback holds the \<open>dayNumber\<close> and \<open>distance\<close>
  of the render whose effect created it. State updates made in one callback are applied
  together, and the effects whose dependencies changed run after them.
\<close>

datatype phase = Idle | Exiting | Entering

datatype timer_callback = ExitDone int string | EnterDone

record timer =
  timer_id :: nat
  due :: nat
  callback :: timer_callback

record label =
  dayNumber :: int
  distance :: string
  textPhase :: phase
  displayDay :: int
  displayDist :: string
  prevDay :: int
  distDeps :: "string \<times> phase \<times> int \<times> int"
  cleanup :: "nat option"
  mounted :: bool
  clock :: nat
  pending :: "timer list"
  next_id :: nat

definition setTimeout :: "timer_callback \<Rightarrow> nat \<Rightarrow> label \<Rightarrow> label" where
  \<comment> \<open>the new timer's id is \<open>next_id\<close> of the state before\<close>
  "setTimeout cb delay s =
     s\<lparr>pending := pending s @ [\<lparr>timer_id = next_id s, due = clock s + delay, callback = cb\<rparr>],
       next_id := Suc (next_id s)\<rparr>"

definition clearTimeout :: "nat \<Rightarrow> label \<Rightarrow> label" where
  "clearTimeout i s = s\<lparr>pending := filter (\<lambda>t. timer_id t \<noteq> i) (pending s)\<rparr>"

definition distanceEffect_seen :: "label \<Rightarrow> label \<Rightarrow> label" where
  \<comment> \<open>the effect with dependencies \<open>[distance, textPhase, dayNumber, displayDay]\<close>, run on
      the state \<open>s\<close> with the values its closure holds, those of the render \<open>r\<close>:
      it runs when one of them differs from its last run\<close>
  "distanceEffect_seen r s =
     (let deps = (distance r, textPhase r, dayNumber r, displayDay r) in
      if deps = distDeps s then s
      else
        (let s' = s\<lparr>distDeps := deps\<rparr> in
         if textPhase r = Idle \<and> dayNumber r = displayDay r
         then s'\<lparr>displayDist := distance r\<rparr> else s'))"

definition distanceEffect :: "label \<Rightarrow> label" where
  \<comment> \<open>the same effect after a render that shows the state as it is\<close>
  "distanceEffect s = distanceEffect_seen s s"

definition transitionEffect :: "label \<Rightarrow> label" where
  \<comment> \<open>the body of the effect with dependencies \<open>[dayNumber, distance]\<close>; \<open>cleanup\<close> is the
      timer its returned function clears, \<open>None\<close> when it returned nothing\<close>
  "transitionEffect s =
     (if dayNumber s = prevDay s then s\<lparr>cleanup := None\<rparr>
      else
        (let s1 = s\<lparr>prevDay := dayNumber s, textPhase := Exiting\<rparr>;
             s2 = setTimeout (ExitDone (dayNumber s) (distance s)) 240 s1
         in s2\<lparr>cleanup := Some (next_id s1)\<rparr>))"

definition run_cleanup :: "label \<Rightarrow> label" where
  "run_cleanup s = (case cleanup s of None \<Rightarrow> s | Some i \<Rightarrow> clearTimeout i s)"

definition mount :: "int \<Rightarrow> string \<Rightarrow> label" where
  \<comment> \<open>the state after the first render and its effects, which change nothing\<close>
  "mount d dtxt =
     \<lparr>dayNumber = d, distance = dtxt, textPhase = Idle, displayDay = d, displayDist = dtxt,
      prevDay = d, distDeps = (dtxt, Idle, d, d), cleanup = None, mounted = True,
      clock = 0, pending = [], next_id = 0\<rparr>"

definition update :: "int \<Rightarrow> string \<Rightarrow> label \<Rightarrow> label" where
  \<comment> \<open>The host renders the component with new props. Both effects of that commit hold the
      values of its render \<open>s1\<close>: the distance effect does not see the \<open>setTextPhase\<close> the
      transition effect has just called. That state update brings a second render, after
      which the distance effect runs again if its dependencies changed.\<close>
  "update d dtxt s =
     (let s1 = s\<lparr>dayNumber := d, distance := dtxt\<rparr>;
          s2 = (if d \<noteq> dayNumber s \<or> dtxt \<noteq> distance s
                then transitionEffect (run_cleanup s1) else s1);
          s3 = distanceEffect_seen s1 s2
      in distanceEffect s3)"

definition unmount :: "label \<Rightarrow> label" where
  "unmount s = (run_cleanup s)\<lparr>mounted := False, cleanup := None\<rparr>"

fun fire :: "timer_callback \<Rightarrow> label \<Rightarrow> label" where
  \<comment> \<open>\<open>setTimeout\<close> drops what its callback returns, so the function the exit callback
      returns, \<open>() => clearTimeout(enterTimer)\<close>, is never called. The state setters of an
      unmounted component do nothing.\<close>
  "fire (ExitDone d dtxt) s =
     (let s1 = (if mounted s
                then s\<lparr>displayDay := d, displayDist := dtxt, textPhase := Entering\<rparr> else s);
          s2 = setTimeout EnterDone 280 s1
      in if mounted s then distanceEffect s2 else s2)"
| "fire EnterDone s =
     (if mounted s then distanceEffect (s\<lparr>textPhase := Idle\<rparr>) else s)"

definition ms_step :: "label \<Rightarrow> label" where
  \<comment> \<open>one millisecond passes; the timers now due fire in the order they were created\<close>
  "ms_step s =
     (let now = Suc (clock s);
          ready = filter (\<lambda>t. due t \<le> now) (pending s);
          s1 = s\<lparr>clock := now, pending := filter (\<lambda>t. \<not> due t \<le> now) (pending s)\<rparr>
      in foldl (\<lambda>a t. fire (callback t) a) s1 ready)"

fun advance :: "nat \<Rightarrow> label \<Rightarrow> label" where
  "advance 0 s = s"
| "advance (Suc k) s = advance k (ms_step s)"

inductive reachable :: "label \<Rightarrow> bool" where
  reach_mount: "reachable (mount d dtxt)"
| reach_update: "reachable s \<Longrightarrow> mounted s \<Longrightarrow> reachable (update d dtxt s)"
| reach_ms: "reachable s \<Longrightarrow> reachable (ms_step s)"
| reach_unmount: "reachable s \<Longrightarrow> reachable (unmount s)"

text \<open>
  What every reachable state satisfies: the transition effect has seen the current day
  number, and the distance effect has run with the current values of its dependencies.
\<close>

definition label_inv :: "label \<Rightarrow> bool" where
  "label_inv s =
     (prevDay s = dayNumber s
      \<and> distDeps s = (distance s, textPhase s, dayNumber s, displayDay s))"

text \<open>
  A rapid sequence of day changes: day 1 to day 2 at 0 ms, then day 2 to day 3 at 300 ms,
  while the first cycle is in its entering phase.
\<close>

definition first_cycle_entering :: label where
  "first_cycle_entering = advance 60 (advance 240 (update 2 ''140.2km'' (mount 1 ''152.7km'')))"

definition rapid_change :: label where
  "rapid_change = update 3 ''98.1km'' first_cycle_entering"


section \<open>Snap on a large backward jump\<close>

text \<open>
  Claim C1. In a tick, when \<open>diff = target - displayed\<close> is below \<open>-0.3\<close>, the displayed
  value after the tick is the target itself, whatever \<open>dt\<close> is; in particular from
  displayed 0.9 and target 0.5 one tick gives displayed 0.5.
\<close>

theorem tick_snap:
  "(target st - displayed st < - (3 / 10) \<longrightarrow> displayed (tick dt st) = target st)
   \<and> displayed (tick dt \<lparr>displayed = 9 / 10, target = 5 / 10, dayTransition = tr, prevDayNum = d\<rparr>)
       = 5 / 10"
  by (simp add: tick_def ease_def)

theorem tick_snap_witness:
  "target \<lparr>displayed = 9 / 10, target = 5 / 10, dayTransition = None, prevDayNum = 1\<rparr>
     - displayed \<lparr>displayed = 9 / 10, target = 5 / 10, dayTransition = None, prevDayNum = 1\<rparr>
     < - (3 / 10)
   \<and> displayed (tick (16 / 1000)
        \<lparr>displayed = 9 / 10, target = 5 / 10, dayTransition = None, prevDayNum = 1\<rparr>) = 5 / 10"
  using tick_snap [of "\<lparr>displayed = 9 / 10, target = 5 / 10, dayTransition = None, prevDayNum = 1\<rparr>"
      "16 / 1000" None 1]
  by simp


section \<open>Convergence of the easing\<close>

lemma exp_double_lower:
  fixes b c x y :: real
  assumes "b \<le> exp x" and "0 \<le> b" and "c \<le> b * b" and "y = 2 * x"
  shows "c \<le> exp y"
proof -
  have "b * b \<le> exp x * exp x"
    using assms(1,2) by (intro mult_mono) simp_all
  also have "\<dots> = exp y"
    using assms(4) by (simp add: exp_add [symmetric])
  finally show ?thesis using assms(3) by simp
qed

lemma exp_settle_lower: "(2106 / 1000000 :: real) \<le> exp (- (6144 / 1000))"
proof -
  have e0: "(994 / 1000 :: real) \<le> exp (- (6 / 1000))"
    using exp_ge_add_one_self [of "- (6 / 1000) :: real"] by simp
  have e1: "(988036 / 1000000 :: real) \<le> exp (- (12 / 1000))"
    by (rule exp_double_lower [OF e0]) simp_all
  have e2: "(976215 / 1000000 :: real) \<le> exp (- (24 / 1000))"
    by (rule exp_double_lower [OF e1]) simp_all
  have e3: "(952995 / 1000000 :: real) \<le> exp (- (48 / 1000))"
    by (rule exp_double_lower [OF e2]) simp_all
  have e4: "(908199 / 1000000 :: real) \<le> exp (- (96 / 1000))"
    by (rule exp_double_lower [OF e3]) simp_all
  have e5: "(824825 / 1000000 :: real) \<le> exp (- (192 / 1000))"
    by (rule exp_double_lower [OF e4]) simp_all
  have e6: "(680336 / 1000000 :: real) \<le> exp (- (384 / 1000))"
    by (rule exp_double_lower [OF e5]) simp_all
  have e7: "(462857 / 1000000 :: real) \<le> exp (- (768 / 1000))"
    by (rule exp_double_lower [OF e6]) simp_all
  have e8: "(214236 / 1000000 :: real) \<le> exp (- (1536 / 1000))"
    by (rule exp_double_lower [OF e7]) simp_all
  have e9: "(45897 / 1000000 :: real) \<le> exp (- (3072 / 1000))"
    by (rule exp_double_lower [OF e8]) simp_all
  show ?thesis
    by (rule exp_double_lower [OF e9]) simp_all
qed

lemma exp_settle_upper: "exp (- (6336 / 1000)) < (2 / 1000 :: real)"
proof -
  have e0: "(18913 / 15625 :: real) \<le> exp (192 / 1000)"
    using exp_lower_Taylor_quadratic [of "192 / 1000 :: real"] by (simp add: power2_eq_square)
  have e1: "(14651 / 10000 :: real) \<le> exp (384 / 1000)"
    by (rule exp_double_lower [OF e0]) simp_all
  have e2: "(21465 / 10000 :: real) \<le> exp (768 / 1000)"
    by (rule exp_double_lower [OF e1]) simp_all
  have e3: "(46074 / 10000 :: real) \<le> exp (1536 / 1000)"
    by (rule exp_double_lower [OF e2]) simp_all
  have e4: "(212281 / 10000 :: real) \<le> exp (3072 / 1000)"
    by (rule exp_double_lower [OF e3]) simp_all
  have e5: "(4506322 / 10000 :: real) \<le> exp (6144 / 1000)"
    by (rule exp_double_lower [OF e4]) simp_all
  have "(500 :: real) < (4506322 / 10000) * (18913 / 15625)" by simp
  also have "\<dots> \<le> exp (6144 / 1000) * exp (192 / 1000)"
    using e0 e5 by (intro mult_mono) simp_all
  also have "\<dots> = exp (6336 / 1000)"
    by (simp add: exp_add [symmetric])
  finally have big: "(500 :: real) < exp (6336 / 1000)" .
  have "exp (- (6336 / 1000)) = inverse (exp (6336 / 1000 :: real))"
    by (simp only: exp_minus)
  also have "\<dots> < inverse 500"
    using big by (intro less_imp_inverse_less) simp_all
  finally show ?thesis by simp
qed


lemma ticks_Suc_end: "ticks (Suc n) dt st = tick dt (ticks n dt st)"
  by (induction n arbitrary: st) simp_all

lemma target_ticks: "target (ticks n dt st) = target st"
  by (induction n arbitrary: st) (simp_all add: tick_def)

lemma ease_residue_Suc: "ease_residue (Suc n) = ease_residue n * exp (- (192 / 1000))"
  by (simp add: ease_residue_def exp_add [symmetric] algebra_simps)

lemma ease_residue_pos: "0 < ease_residue n"
  by (simp add: ease_residue_def)

lemma ease_residue_early: "n \<le> 32 \<Longrightarrow> 2 / 1000 < ease_residue n"
proof -
  assume "n \<le> 32"
  then have "real n \<le> 32" by simp
  then have "- (6144 / 1000) \<le> - (192 / 1000) * real n" by simp
  then have "exp (- (6144 / 1000)) \<le> ease_residue n"
    unfolding ease_residue_def by (simp only: exp_le_cancel_iff)
  then show ?thesis using exp_settle_lower by simp
qed

lemma ease_residue_33: "ease_residue 33 < 2 / 1000"
  using exp_settle_upper by (simp add: ease_residue_def)

lemma ease_step_closed:
  assumes "n \<le> 32" and dt: "dt = 16 / 1000" and tg: "tgt = 1 / 2"
  shows "ease dt tgt (tgt * (1 - ease_residue n)) = tgt * (1 - ease_residue (Suc n))"
proof -
  have big: "2 / 1000 < ease_residue n" using assms(1) by (rule ease_residue_early)
  have diff: "tgt - tgt * (1 - ease_residue n) = ease_residue n / 2"
    by (simp add: tg field_simps)
  have "ease dt tgt (tgt * (1 - ease_residue n))
      = tgt * (1 - ease_residue n) + ease_residue n / 2 * (1 - exp (- (192 / 1000)))"
    unfolding ease_def Let_def diff EASE_def using big by (simp add: dt)
  also have "\<dots> = tgt * (1 - ease_residue (Suc n))"
    by (simp add: ease_residue_Suc tg field_simps)
  finally show ?thesis .
qed

lemma displayed_closed:
  assumes "displayed st = 0" and tg: "target st = 1 / 2" and dt: "dt = 16 / 1000" and "n \<le> 33"
  shows "displayed (ticks n dt st) = target st * (1 - ease_residue n)"
  using assms(4)
proof (induction n)
  case 0
  then show ?case using assms(1) by (simp add: ease_residue_def)
next
  case (Suc n)
  then have le: "n \<le> 32"
    and ih: "displayed (ticks n dt st) = target st * (1 - ease_residue n)"
    by simp_all
  have "displayed (ticks (Suc n) dt st) = ease dt (target st) (displayed (ticks n dt st))"
    by (simp only: ticks_Suc_end) (simp add: tick_def target_ticks)
  also have "\<dots> = ease dt (target st) (target st * (1 - ease_residue n))"
    by (simp only: ih)
  also have "\<dots> = target st * (1 - ease_residue (Suc n))"
    using le dt tg by (rule ease_step_closed)
  finally show ?case .
qed

lemma ease_at_target: "ease dt tgt tgt = tgt"
  by (simp add: ease_def)

lemma ease_last_step:
  assumes tg: "tgt = 1 / 2"
  shows "ease dt tgt (tgt * (1 - ease_residue 33)) = tgt"
proof -
  have diff: "tgt - tgt * (1 - ease_residue 33) = ease_residue 33 / 2"
    by (simp add: tg field_simps)
  show ?thesis
    unfolding ease_def Let_def diff
    using ease_residue_33 ease_residue_pos [of 33] by simp
qed

lemma displayed_settled:
  assumes "displayed st = 0" and tg: "target st = 1 / 2" and dt: "dt = 16 / 1000" and "34 \<le> n"
  shows "displayed (ticks n dt st) = target st"
  using assms(4)
proof (induction n)
  case 0
  then show ?case by simp
next
  case (Suc n)
  have step: "displayed (ticks (Suc n) dt st) = ease dt (target st) (displayed (ticks n dt st))"
    by (simp only: ticks_Suc_end) (simp add: tick_def target_ticks)
  show ?case
  proof (cases "n = 33")
    case True
    have "displayed (ticks 33 dt st) = target st * (1 - ease_residue 33)"
      using assms(1) tg dt by (rule displayed_closed) simp
    then show ?thesis
      using step True ease_last_step [OF tg] by simp
  next
    case False
    with Suc.prems have "34 \<le> n" by simp
    then have "displayed (ticks n dt st) = target st" by (rule Suc.IH)
    then show ?thesis using step by (simp add: ease_at_target)
  qed
qed


text \<open>
  Claim C2, as amended. From displayed 0 and target 0.5, with \<open>dt = 0.016\<close> in every tick:
  each of the first 33 ticks advances displayed by \<open>diff * (1 - e^(-12 * dt))\<close>; displayed
  grows strictly in each of the first 34 ticks and stays below the target before the 34th;
  the 34th tick (544 ms) finds \<open>|diff| < 0.001\<close> and sets displayed to the target exactly,
  where it stays.
\<close>

theorem easing_converges:
  assumes d0: "displayed st = 0" and tg: "target st = 1 / 2"
  shows "(\<forall>n<33. displayed (ticks (Suc n) (16 / 1000) st)
            = displayed (ticks n (16 / 1000) st)
              + (target st - displayed (ticks n (16 / 1000) st)) * (1 - exp (- 12 * (16 / 1000))))
       \<and> (\<forall>n<34. displayed (ticks n (16 / 1000) st) < displayed (ticks (Suc n) (16 / 1000) st))
       \<and> (\<forall>n<34. displayed (ticks n (16 / 1000) st) < target st)
       \<and> (\<forall>n\<ge>34. displayed (ticks n (16 / 1000) st) = target st)"
proof -
  define dt :: real where "dt = 16 / 1000"
  have dt: "dt = 16 / 1000" by (simp add: dt_def)
  have closed: "displayed (ticks n dt st) = target st * (1 - ease_residue n)" if "n \<le> 33" for n
    using d0 tg dt that by (rule displayed_closed)
  have settled: "displayed (ticks n dt st) = target st" if "34 \<le> n" for n
    using d0 tg dt that by (rule displayed_settled)
  have below: "displayed (ticks n dt st) < target st" if "n < 34" for n
    using closed [of n] that ease_residue_pos [of n] by (simp add: tg)
  have advance: "displayed (ticks (Suc n) dt st)
            = displayed (ticks n dt st)
              + (target st - displayed (ticks n dt st)) * (1 - exp (- 12 * dt))" if "n < 33" for n
  proof -
    have e1: "displayed (ticks (Suc n) dt st) = target st * (1 - ease_residue n * exp (- (192 / 1000)))"
      using closed [of "Suc n"] that by (simp only: ease_residue_Suc)
    have e2: "displayed (ticks n dt st) = target st * (1 - ease_residue n)"
      using closed [of n] that by simp
    show ?thesis
      unfolding e1 e2 by (simp add: dt field_simps)
  qed
  have grows: "displayed (ticks n dt st) < displayed (ticks (Suc n) dt st)" if "n < 34" for n
  proof (cases "n < 33")
    case True
    have "0 < target st - displayed (ticks n dt st)"
      using below [OF that] by simp
    moreover have "0 < 1 - exp (- 12 * dt)" by (simp add: dt)
    ultimately have "0 < (target st - displayed (ticks n dt st)) * (1 - exp (- 12 * dt))"
      by (rule mult_pos_pos)
    then show ?thesis using advance [OF True] by simp
  next
    case False
    with that have "Suc n = 34" by simp
    then have "displayed (ticks (Suc n) dt st) = target st"
      using settled [of "Suc n"] by simp
    then show ?thesis using below [OF that] by simp
  qed
  show ?thesis
    unfolding dt [symmetric] using advance grows below settled by blast
qed

theorem easing_converges_witness:
  "displayed \<lparr>displayed = 0, target = 1 / 2, dayTransition = None, prevDayNum = 1\<rparr> = 0
   \<and> target \<lparr>displayed = 0, target = 1 / 2, dayTransition = None, prevDayNum = 1\<rparr> = 1 / 2
   \<and> (34::nat) \<le> 34
   \<and> displayed (ticks 34 (16 / 1000)
         \<lparr>displayed = 0, target = 1 / 2, dayTransition = None, prevDayNum = 1\<rparr>) = 1 / 2"
proof -
  let ?s = "\<lparr>displayed = 0, target = 1 / 2, dayTransition = None, prevDayNum = 1\<rparr>"
  have a: "displayed ?s = 0" and b: "target ?s = 1 / 2" by simp_all
  have "\<forall>n\<ge>34. displayed (ticks n (16 / 1000) ?s) = target ?s"
    using easing_converges [OF a b] by (elim conjE)
  then have "displayed (ticks 34 (16 / 1000) ?s) = target ?s" by simp
  then show ?thesis by simp
qed

text \<open>
  After 25 ticks (400 ms), and still after 31 ticks (496 ms), the distance to the target
  is not below 0.001 and displayed is not the target.
\<close>

theorem easing_unsettled_at_400ms:
  "\<not> \<bar>target \<lparr>displayed = 0, target = 1 / 2, dayTransition = None, prevDayNum = 1\<rparr>
        - displayed (ticks 25 (16 / 1000)
            \<lparr>displayed = 0, target = 1 / 2, dayTransition = None, prevDayNum = 1\<rparr>)\<bar> < 1 / 1000
   \<and> displayed (ticks 25 (16 / 1000)
         \<lparr>displayed = 0, target = 1 / 2, dayTransition = None, prevDayNum = 1\<rparr>)
       \<noteq> target \<lparr>displayed = 0, target = 1 / 2, dayTransition = None, prevDayNum = 1\<rparr>
   \<and> \<not> \<bar>target \<lparr>displayed = 0, target = 1 / 2, dayTransition = None, prevDayNum = 1\<rparr>
        - displayed (ticks 31 (16 / 1000)
            \<lparr>displayed = 0, target = 1 / 2, dayTransition = None, prevDayNum = 1\<rparr>)\<bar> < 1 / 1000"
proof -
  let ?s = "\<lparr>displayed = 0, target = 1 / 2, dayTransition = None, prevDayNum = 1\<rparr>"
  define dt :: real where "dt = 16 / 1000"
  have dt: "dt = 16 / 1000" by (simp add: dt_def)
  have a: "displayed ?s = 0" and b: "target ?s = 1 / 2" by simp_all
  have c25: "displayed (ticks 25 dt ?s) = target ?s * (1 - ease_residue 25)"
    using a b dt by (rule displayed_closed) simp
  have c31: "displayed (ticks 31 dt ?s) = target ?s * (1 - ease_residue 31)"
    using a b dt by (rule displayed_closed) simp
  have r25: "2 / 1000 < ease_residue 25" by (rule ease_residue_early) simp
  have r31: "2 / 1000 < ease_residue 31" by (rule ease_residue_early) simp
  show ?thesis
    unfolding dt [symmetric] c25 c31 using r25 r31 by (simp add: field_simps)
qed

section \<open>The easing step stays between displayed and target\<close>

lemma frame_dt_capped: "frame_dt lastTime now \<le> 5 / 100"
  by (auto simp: frame_dt_def)






section \<open>Properties of the rounding\<close>

lemma expo_bounds: "0 < x \<Longrightarrow> 2 powi expo x \<le> x \<and> x < 2 powi (expo x + 1)"
proof (induction x rule: expo.induct)
  case (1 x)
  show ?case
  proof (cases "2 \<le> x")
    case True
    then have e: "expo x = expo (x / 2) + 1" using "1.prems" by (subst expo.simps) simp
    have "2 powi expo (x / 2) \<le> x / 2 \<and> x / 2 < 2 powi (expo (x / 2) + 1)"
      using "1.IH"(1) "1.prems" True by simp
    then show ?thesis unfolding e by (simp add: power_int_add field_simps)
  next
    case False
    show ?thesis
    proof (cases "x < 1")
      case True
      then have e: "expo x = expo (2 * x) - 1" using "1.prems" False by (subst expo.simps) simp
      have "2 powi expo (2 * x) \<le> 2 * x \<and> 2 * x < 2 powi (expo (2 * x) + 1)"
        using "1.IH"(2) "1.prems" False True by simp
      then show ?thesis unfolding e by (simp add: power_int_add power_int_diff field_simps)
    next
      case False
      then have "expo x = 0" using "1.prems" \<open>\<not> 2 \<le> x\<close> by (subst expo.simps) simp
      then show ?thesis using False \<open>\<not> 2 \<le> x\<close> by simp
    qed
  qed
qed

lemma pow2_less_imp:
  assumes "(2::real) powi a < 2 powi b"
  shows "a < b"
proof (rule ccontr)
  assume "\<not> a < b"
  then have "b \<le> a" by simp
  then have "(2::real) powi b \<le> 2 powi a" by (rule power_int_increasing) simp
  with assms show False by simp
qed

lemma expo_unique:
  assumes "0 < x" and "2 powi k \<le> x" and "x < 2 powi (k + 1)"
  shows "expo x = k"
proof -
  have b: "2 powi expo x \<le> x" "x < 2 powi (expo x + 1)"
    using expo_bounds [OF assms(1)] by simp_all
  have "(2::real) powi k < 2 powi (expo x + 1)" using assms(2) b(2) by simp
  then have "k < expo x + 1" by (rule pow2_less_imp)
  moreover have "(2::real) powi expo x < 2 powi (k + 1)" using assms(3) b(1) by simp
  then have "expo x < k + 1" by (rule pow2_less_imp)
  ultimately show ?thesis by simp
qed

lemma round_even_near: "\<bar>of_int (round_even y) - y\<bar> \<le> 1 / 2"
  unfolding round_even_def Let_def by (auto; linarith)

lemma round_even_mono_int: "of_int n \<le> y \<Longrightarrow> n \<le> round_even y"
  unfolding round_even_def Let_def by (auto simp: le_floor_iff; linarith)

lemma round_even_le_int: "y \<le> of_int n \<Longrightarrow> round_even y \<le> n"
  unfolding round_even_def Let_def by (auto; linarith)


lemma round_even_int: "round_even (of_int n) = n"
  by (simp add: round_even_def)

lemma rnd_eval:
  assumes "2 powi k \<le> \<bar>x\<bar>" and "\<bar>x\<bar> < 2 powi (k + 1)"
  shows "rnd x = of_int (round_even (x / 2 powi (k - 52))) * 2 powi (k - 52)"
proof -
  have pos: "0 < \<bar>x\<bar>" using assms(1) zero_less_power_int [of "2::real" k] by linarith
  then have "expo \<bar>x\<bar> = k" using assms by (intro expo_unique) simp_all
  moreover have "x \<noteq> 0" using pos by simp
  ultimately show ?thesis by (simp add: rnd_def Let_def)
qed

lemma rnd_err: "\<bar>rnd x - x\<bar> \<le> \<bar>x\<bar> / 2 ^ 53"
proof (cases "x = 0")
  case True
  then show ?thesis by (simp add: rnd_def Let_def)
next
  case False
  define e where "e = expo \<bar>x\<bar>"
  define u :: real where "u = 2 powi (e - 52)"
  have u: "0 < u" by (simp add: u_def)
  have lo: "2 powi e \<le> \<bar>x\<bar>" using expo_bounds [of "\<bar>x\<bar>"] False by (simp add: e_def)
  have r: "rnd x = of_int (round_even (x / u)) * u"
    using False by (simp add: rnd_def Let_def e_def u_def)
  have "rnd x - x = (of_int (round_even (x / u)) - x / u) * u"
    using u by (simp add: r field_simps)
  then have "\<bar>rnd x - x\<bar> = \<bar>of_int (round_even (x / u)) - x / u\<bar> * u"
    using u by (simp add: abs_mult)
  also have "\<dots> \<le> 1 / 2 * u"
    using round_even_near [of "x / u"] u by (intro mult_right_mono) simp_all
  also have "\<dots> = 2 powi e / 2 ^ 53"
    by (simp add: u_def power_int_diff)
  also have "\<dots> \<le> \<bar>x\<bar> / 2 ^ 53"
    using lo by (simp add: divide_right_mono)
  finally show ?thesis .
qed

lemma rnd_pos:
  assumes "0 < x"
  shows "0 < rnd x"
proof -
  define e where "e = expo \<bar>x\<bar>"
  define u :: real where "u = 2 powi (e - 52)"
  have u: "0 < u" by (simp add: u_def)
  have lo: "2 powi e \<le> x" using expo_bounds [of x] assms by (simp add: e_def)
  have r: "rnd x = of_int (round_even (x / u)) * u"
    using assms by (simp add: rnd_def Let_def e_def u_def)
  have "2 powi e = 2 ^ 52 * u" by (simp add: u_def power_int_diff)
  then have "2 ^ 52 * u \<le> x" using lo by simp
  then have "(1::real) \<le> x / u" using u by (simp add: field_simps) 
  then have "1 \<le> round_even (x / u)" using round_even_mono_int [of 1 "x / u"] by simp
  then have "(1::real) \<le> of_int (round_even (x / u))" by simp
  then show ?thesis unfolding r using u by (simp add: zero_less_mult_iff)
qed

lemma rnd_zero: "rnd 0 = 0"
  by (simp add: rnd_def Let_def)

lemma rnd_nonneg: "0 \<le> x \<Longrightarrow> 0 \<le> rnd x"
  using rnd_pos [of x] rnd_zero by (cases "x = 0") auto

lemma rnd_le_one:
  assumes "0 \<le> x" and "x \<le> 1"
  shows "rnd x \<le> 1"
proof (cases "x = 0")
  case True
  then show ?thesis by (simp add: rnd_def Let_def)
next
  case False
  then have pos: "0 < x" using assms(1) by simp
  define e where "e = expo \<bar>x\<bar>"
  define u :: real where "u = 2 powi (e - 52)"
  have u: "0 < u" by (simp add: u_def)
  have b: "2 powi e \<le> x" "x < 2 powi (e + 1)"
    using expo_bounds [of x] pos by (simp_all add: e_def)
  have r: "rnd x = of_int (round_even (x / u)) * u"
    using pos by (simp add: rnd_def Let_def e_def u_def)
  have top: "2 powi (e + 1) = 2 ^ 53 * u" by (simp add: u_def power_int_diff power_int_add)
  have "x < 2 ^ 53 * u" using b(2) by (simp only: top)
  then have "x / u \<le> 2 ^ 53" using u by (simp add: field_simps)
  then have "x / u \<le> of_int (2 ^ 53)" by simp
  then have "round_even (x / u) \<le> 2 ^ 53" by (rule round_even_le_int)
  then have "(of_int (round_even (x / u)) :: real) \<le> 2 ^ 53"
    by (metis of_int_le_iff of_int_numeral of_int_power)
  then have le: "rnd x \<le> 2 powi (e + 1)"
    unfolding r top using u by (intro mult_right_mono) simp_all
  show ?thesis
  proof (cases "e \<le> - 1")
    case True
    then have "(2::real) powi (e + 1) \<le> 2 powi 0" by (intro power_int_increasing) simp_all
    then show ?thesis using le by simp
  next
    case False
    then have "0 \<le> e" by simp
    then have "(2::real) powi 0 \<le> 2 powi e" by (intro power_int_increasing) simp_all
    then have "x = 1" using b(1) assms(2) by simp
    have "expo \<bar>1::real\<bar> = 0" by (rule expo_unique) simp_all
    then show ?thesis unfolding \<open>x = 1\<close> by (simp add: rnd_def Let_def round_even_def)
  qed
qed

lemma err_unit_pos: "0 < err_unit"
  by (simp add: err_unit_def)

lemma err_unit_small: "err_unit \<le> 1 / 1000000000000000"
  by (simp add: err_unit_def)

lemma rnd_close:
  assumes "\<bar>y - x\<bar> \<le> e" and "\<bar>y\<bar> \<le> B"
  shows "\<bar>rnd y - x\<bar> \<le> e + B * err_unit"
proof -
  have "\<bar>rnd y - y\<bar> \<le> \<bar>y\<bar> / 2 ^ 53" by (rule rnd_err)
  also have "\<dots> \<le> B / 2 ^ 53" using assms(2) by (simp add: divide_right_mono)
  also have "\<dots> \<le> B / 10 ^ 15"
  proof -
    have "0 \<le> B" using assms(2) by linarith
    then show ?thesis by (intro divide_left_mono) simp_all
  qed
  finally have "\<bar>rnd y - y\<bar> \<le> B * err_unit" by (simp add: err_unit_def)
  then show ?thesis using assms(1) by linarith
qed

lemma mul_close:
  fixes a b a' b' :: real
  assumes "\<bar>a - a'\<bar> \<le> ea" and "\<bar>b - b'\<bar> \<le> eb" and "\<bar>a'\<bar> \<le> A" and "\<bar>b\<bar> \<le> B"
  shows "\<bar>a * b - a' * b'\<bar> \<le> ea * B + A * eb"
proof -
  have "a * b - a' * b' = (a - a') * b + a' * (b - b')" by (simp add: algebra_simps)
  then have "\<bar>a * b - a' * b'\<bar> \<le> \<bar>a - a'\<bar> * \<bar>b\<bar> + \<bar>a'\<bar> * \<bar>b - b'\<bar>"
    by (metis abs_mult abs_triangle_ineq)
  also have "\<dots> \<le> ea * B + A * eb"
    using assms by (intro add_mono mult_mono) (auto intro: order_trans [OF abs_ge_zero])
  finally show ?thesis .
qed


section \<open>The colour interpolator against its reference definition\<close>

lemma halfTrans_near: "\<bar>halfTrans - 35 / 1000\<bar> \<le> err_unit"
proof -
  have "\<bar>rnd (35 / 1000) - 35 / 1000\<bar> \<le> 0 + 1 * err_unit"
    by (rule rnd_close) simp_all
  then show ?thesis by (simp add: halfTrans_def)
qed

lemma lo_near:
  assumes "0 \<le> bd" and "bd \<le> 1"
  shows "\<bar>fsub bd halfTrans - (bd - 35 / 1000)\<bar> \<le> 3 * err_unit"
proof -
  note h = halfTrans_near err_unit_small
  have a: "\<bar>(bd - halfTrans) - (bd - 35 / 1000)\<bar> \<le> err_unit"
    using h by linarith
  have b: "\<bar>bd - halfTrans\<bar> \<le> 2"
    using h assms by linarith
  show ?thesis
    unfolding fsub_def using rnd_close [OF a b] by simp
qed

lemma hi_near:
  assumes "0 \<le> bd" and "bd \<le> 1"
  shows "\<bar>fadd bd halfTrans - (bd + 35 / 1000)\<bar> \<le> 3 * err_unit"
proof -
  note h = halfTrans_near err_unit_small
  have a: "\<bar>(bd + halfTrans) - (bd + 35 / 1000)\<bar> \<le> err_unit"
    using h by linarith
  have b: "\<bar>bd + halfTrans\<bar> \<le> 2"
    using h assms by linarith
  show ?thesis
    unfolding fadd_def using rnd_close [OF a b] by simp
qed

lemma width_near: "\<bar>fmul 2 halfTrans - 7 / 100\<bar> \<le> 3 * err_unit"
proof -
  note h = halfTrans_near err_unit_small
  have a: "\<bar>2 * halfTrans - 7 / 100\<bar> \<le> 2 * err_unit"
    using h by linarith
  have b: "\<bar>2 * halfTrans\<bar> \<le> 1"
    using h by linarith
  show ?thesis
    unfolding fmul_def using rnd_close [OF a b] by simp
qed


lemma div_close:
  fixes a w N W :: real
  assumes "\<bar>a - N\<bar> \<le> ea" and "\<bar>w - W\<bar> \<le> ew" and "\<bar>N\<bar> \<le> Nb"
    and "0 < Wl" and "Wl \<le> w" and "Wl \<le> W"
  shows "\<bar>a / w - N / W\<bar> \<le> ea / Wl + Nb * ew / (Wl * Wl)"
proof -
  have w: "0 < w" and W: "0 < W" using assms(4-6) by linarith+
  have split: "a / w - N / W = (a - N) / w + N * (W - w) / (w * W)"
    using w W by (simp add: field_simps)
  have p1: "\<bar>(a - N) / w\<bar> \<le> ea / Wl"
  proof -
    have "\<bar>(a - N) / w\<bar> = \<bar>a - N\<bar> / w" using w by simp
    also have "\<dots> \<le> ea / Wl"
      using assms(1,4,5) by (intro frac_le) simp_all
    finally show ?thesis .
  qed
  have p2: "\<bar>N * (W - w) / (w * W)\<bar> \<le> Nb * ew / (Wl * Wl)"
  proof -
    have "\<bar>N * (W - w) / (w * W)\<bar> = (\<bar>N\<bar> * \<bar>W - w\<bar>) / (w * W)"
      using w W by (simp add: abs_mult)
    also have "\<dots> \<le> (Nb * ew) / (Wl * Wl)"
    proof (intro frac_le mult_mono)
      show "\<bar>W - w\<bar> \<le> ew" using assms(2) by linarith
      show "0 \<le> Nb" using assms(3) by linarith
    qed (use assms w W in simp_all)
    finally show ?thesis .
  qed
  show ?thesis unfolding split using p1 p2 by linarith
qed

lemma frac_near:
  assumes "1 / 4 \<le> bd" and "bd \<le> 3 / 4"
    and "fsub bd halfTrans < t" and "t \<le> fadd bd halfTrans"
  shows "\<bar>fdiv (fsub t (fsub bd halfTrans)) (fmul 2 halfTrans) - window_fraction bd t\<bar>
           \<le> 200 * err_unit"
    and "- (50 * err_unit) \<le> window_fraction bd t"
    and "window_fraction bd t \<le> 1 + 50 * err_unit"
proof -
  note u = err_unit_pos err_unit_small
  define lo where "lo = fsub bd halfTrans"
  define hi where "hi = fadd bd halfTrans"
  define w2 where "w2 = fmul 2 halfTrans"
  define N where "N = t - (bd - 35 / 1000)"
  have lo: "\<bar>lo - (bd - 35 / 1000)\<bar> \<le> 3 * err_unit"
    unfolding lo_def using assms(1,2) by (intro lo_near) linarith+
  have hi: "\<bar>hi - (bd + 35 / 1000)\<bar> \<le> 3 * err_unit"
    unfolding hi_def using assms(1,2) by (intro hi_near) linarith+
  have w2: "\<bar>w2 - 7 / 100\<bar> \<le> 3 * err_unit"
    unfolding w2_def by (rule width_near)
  have t: "lo < t" "t \<le> hi" using assms(3,4) by (simp_all add: lo_def hi_def)
  have N: "- (3 * err_unit) \<le> N" "N \<le> 7 / 100 + 3 * err_unit"
    using lo hi t unfolding N_def by linarith+
  have fx: "window_fraction bd t = N / (7 / 100)"
    by (simp add: window_fraction_def N_def)
  show "- (50 * err_unit) \<le> window_fraction bd t"
    unfolding fx using N(1) u by (simp add: field_simps)
  show "window_fraction bd t \<le> 1 + 50 * err_unit"
    unfolding fx using N(2) u by (simp add: field_simps)
  have fxb: "\<bar>N / (7 / 100)\<bar> \<le> 3 / 2"
    using N u by (simp add: abs_le_iff field_simps)
  have a1: "\<bar>rnd (t - lo) - N\<bar> \<le> 3 * err_unit + 1 * err_unit"
  proof (rule rnd_close)
    show "\<bar>t - lo - N\<bar> \<le> 3 * err_unit" using lo unfolding N_def by linarith
    show "\<bar>t - lo\<bar> \<le> 1" using lo hi t assms(1,2) u by linarith
  qed
  have q: "\<bar>rnd (t - lo) / w2 - N / (7 / 100)\<bar>
             \<le> (3 * err_unit + 1 * err_unit) / (6 / 100) + (1 / 10) * (3 * err_unit) / (6 / 100 * (6 / 100))"
  proof (rule div_close [OF a1 w2])
    show "\<bar>N\<bar> \<le> 1 / 10" using N u by linarith
    show "6 / 100 \<le> w2" using w2 u by linarith
  qed simp_all
  have q': "\<bar>rnd (t - lo) / w2 - N / (7 / 100)\<bar> \<le> 150 * err_unit"
    using q by (simp add: field_simps)
  have "\<bar>rnd (rnd (t - lo) / w2) - N / (7 / 100)\<bar> \<le> 150 * err_unit + 2 * err_unit"
  proof (rule rnd_close [OF q'])
    show "\<bar>rnd (t - lo) / w2\<bar> \<le> 2" using q' fxb u by linarith
  qed
  then show "\<bar>fdiv (fsub t (fsub bd halfTrans)) (fmul 2 halfTrans) - window_fraction bd t\<bar>
           \<le> 200 * err_unit"
    unfolding fx using u by (simp add: fdiv_def fsub_def [of t] lo_def w2_def)
qed


lemma abs_prod_bound:
  fixes a b :: real
  assumes "\<bar>a\<bar> \<le> A" and "\<bar>b\<bar> \<le> B"
  shows "\<bar>a * b\<bar> \<le> A * B"
  unfolding abs_mult using assms by (intro mult_mono) (auto intro: order_trans [OF abs_ge_zero])

lemma smoothstep_near:
  assumes "\<bar>f - fx\<bar> \<le> 200 * err_unit" and "- (1 / 10) \<le> fx" and "fx \<le> 11 / 10"
  shows "\<bar>smoothstep f - smoothstep_spec fx\<bar> \<le> 3000 * err_unit"
proof -
  note u = err_unit_pos err_unit_small
  have fx: "\<bar>fx\<bar> \<le> 11 / 10" using assms(2,3) by linarith
  have f: "\<bar>f\<bar> \<le> 12 / 10" using assms(1) fx u by linarith
  have sq: "\<bar>fx * fx\<bar> \<le> 11 / 10 * (11 / 10)" using fx fx by (rule abs_prod_bound)
  have p: "\<bar>f * f - fx * fx\<bar> \<le> 200 * err_unit * (12 / 10) + 11 / 10 * (200 * err_unit)"
    using assms(1) assms(1) fx f by (rule mul_close)
  have q: "\<bar>rnd (f * f) - fx * fx\<bar>
             \<le> 200 * err_unit * (12 / 10) + 11 / 10 * (200 * err_unit) + 2 * err_unit"
  proof (rule rnd_close [OF p])
    show "\<bar>f * f\<bar> \<le> 2" using p sq u by linarith
  qed
  then have q': "\<bar>rnd (f * f) - fx * fx\<bar> \<le> 462 * err_unit" by simp
  have m: "\<bar>rnd (2 * f) - 2 * fx\<bar> \<le> 400 * err_unit + 3 * err_unit"
  proof (rule rnd_close)
    show "\<bar>2 * f - 2 * fx\<bar> \<le> 400 * err_unit" using assms(1) by linarith
    show "\<bar>2 * f\<bar> \<le> 3" using f by linarith
  qed
  have g: "\<bar>rnd (3 - rnd (2 * f)) - (3 - 2 * fx)\<bar> \<le> 403 * err_unit + 6 * err_unit"
  proof (rule rnd_close)
    show "\<bar>3 - rnd (2 * f) - (3 - 2 * fx)\<bar> \<le> 403 * err_unit" using m by linarith
    show "\<bar>3 - rnd (2 * f)\<bar> \<le> 6" using m fx u by linarith
  qed
  then have g': "\<bar>rnd (3 - rnd (2 * f)) - (3 - 2 * fx)\<bar> \<le> 409 * err_unit" by simp
  have gb: "\<bar>rnd (3 - rnd (2 * f))\<bar> \<le> 33 / 10" using g' assms(2,3) u by linarith
  have tb: "\<bar>3 - 2 * fx\<bar> \<le> 32 / 10" using assms(2,3) by linarith
  have pr: "\<bar>rnd (f * f) * rnd (3 - rnd (2 * f)) - fx * fx * (3 - 2 * fx)\<bar>
              \<le> 462 * err_unit * (33 / 10) + 11 / 10 * (11 / 10) * (409 * err_unit)"
    using q' g' sq gb by (rule mul_close)
  have exact: "\<bar>fx * fx * (3 - 2 * fx)\<bar> \<le> 11 / 10 * (11 / 10) * (32 / 10)"
    using sq tb by (rule abs_prod_bound)
  have "\<bar>rnd (rnd (f * f) * rnd (3 - rnd (2 * f))) - fx * fx * (3 - 2 * fx)\<bar>
          \<le> 462 * err_unit * (33 / 10) + 11 / 10 * (11 / 10) * (409 * err_unit) + 4 * err_unit"
  proof (rule rnd_close [OF pr])
    show "\<bar>rnd (f * f) * rnd (3 - rnd (2 * f))\<bar> \<le> 4" using pr exact u by linarith
  qed
  then show ?thesis
    using u by (simp add: smoothstep_def smoothstep_spec_def fmul_def fsub_def power2_eq_square)
qed


lemma mix_near:
  assumes "\<bar>s - S\<bar> \<le> 3000 * err_unit" and "\<bar>S\<bar> \<le> 4"
    and "0 \<le> v" and "v \<le> 255" and "0 \<le> w" and "w \<le> 255"
  shows "\<bar>fadd (of_int v) (fmul (fsub (of_int w) (of_int v)) s)
           - (of_int v + (of_int w - of_int v) * S)\<bar> \<le> 900000 * err_unit"
proof -
  note u = err_unit_pos err_unit_small
  define d :: real where "d = of_int w - of_int v"
  have d: "\<bar>d\<bar> \<le> 255" using assms(3-6) by (simp add: d_def)
  have s: "\<bar>s\<bar> \<le> 5" using assms(1,2) u by linarith
  have dv: "\<bar>rnd d - d\<bar> \<le> 0 + 255 * err_unit"
    by (rule rnd_close) (use d in simp_all)
  have pr: "\<bar>rnd d * s - d * S\<bar> \<le> (0 + 255 * err_unit) * 5 + 255 * (3000 * err_unit)"
    using dv assms(1) d s by (rule mul_close)
  then have pr: "\<bar>rnd d * s - d * S\<bar> \<le> 766275 * err_unit" by simp
  have "\<bar>d * S\<bar> \<le> 255 * 4" using d assms(2) by (rule abs_prod_bound)
  then have ex: "\<bar>d * S\<bar> \<le> 1020" by simp
  have pr': "\<bar>rnd (rnd d * s) - d * S\<bar> \<le> 766275 * err_unit + 1100 * err_unit"
  proof (rule rnd_close [OF pr])
    show "\<bar>rnd d * s\<bar> \<le> 1100" using pr ex u by linarith
  qed
  have "\<bar>rnd (of_int v + rnd (rnd d * s)) - (of_int v + d * S)\<bar>
          \<le> (766275 * err_unit + 1100 * err_unit) + 1500 * err_unit"
  proof (rule rnd_close)
    show "\<bar>of_int v + rnd (rnd d * s) - (of_int v + d * S)\<bar>
            \<le> 766275 * err_unit + 1100 * err_unit"
      using pr' by linarith
    have "\<bar>(of_int v :: real)\<bar> \<le> 255" using assms(3,4) by simp
    then show "\<bar>of_int v + rnd (rnd d * s)\<bar> \<le> 1500" using pr' ex u by linarith
  qed
  then show ?thesis
    using u by (simp add: fadd_def fmul_def fsub_def d_def)
qed

lemma spec_small:
  assumes "\<bar>x\<bar> \<le> 50 * err_unit"
  shows "\<bar>smoothstep_spec x\<bar> \<le> 50 * err_unit"
proof -
  note u = err_unit_pos err_unit_small
  have a: "\<bar>x\<bar> \<le> 1 / 10" using assms u by linarith
  have b: "\<bar>3 - 2 * x\<bar> \<le> 4" using a by linarith
  have "\<bar>x * (3 - 2 * x)\<bar> \<le> 1 / 10 * 4" using a b by (rule abs_prod_bound)
  then have "\<bar>x * (x * (3 - 2 * x))\<bar> \<le> 50 * err_unit * (1 / 10 * 4)"
    using assms by (rule abs_prod_bound [rotated])
  then show ?thesis using u by (simp add: smoothstep_spec_def power2_eq_square mult.assoc)
qed

lemma spec_near_one:
  assumes "\<bar>x - 1\<bar> \<le> 50 * err_unit"
  shows "\<bar>1 - smoothstep_spec x\<bar> \<le> 50 * err_unit"
proof -
  note u = err_unit_pos err_unit_small
  have id: "1 - smoothstep_spec x = (x - 1) * ((x - 1) * (1 + 2 * x))"
    by (simp add: smoothstep_spec_def power2_eq_square algebra_simps)
  have a: "\<bar>x - 1\<bar> \<le> 1 / 10" using assms u by linarith
  have b: "\<bar>1 + 2 * x\<bar> \<le> 4" using a by linarith
  have "\<bar>(x - 1) * (1 + 2 * x)\<bar> \<le> 1 / 10 * 4" using a b by (rule abs_prod_bound)
  then have "\<bar>(x - 1) * ((x - 1) * (1 + 2 * x))\<bar> \<le> 50 * err_unit * (1 / 10 * 4)"
    using assms by (rule abs_prod_bound [rotated])
  then show ?thesis unfolding id using u by simp
qed

lemma fraction_le_zero: "(window_fraction bd t \<le> 0) = (t \<le> bd - 35 / 1000)"
  by (auto simp: window_fraction_def field_simps)

lemma fraction_ge_one: "(1 \<le> window_fraction bd t) = (bd + 35 / 1000 \<le> t)"
  by (auto simp: window_fraction_def field_simps)

lemma ramp_low:
  assumes "window_fraction bd t \<le> 50 * err_unit"
  shows "\<bar>ramp bd t\<bar> \<le> 50 * err_unit"
proof (cases "window_fraction bd t \<le> 0")
  case True
  then show ?thesis using err_unit_pos by (simp add: ramp_def fraction_le_zero)
next
  case False
  note u = err_unit_pos err_unit_small
  have "\<not> 1 \<le> window_fraction bd t" using assms u by linarith
  then have r: "ramp bd t = smoothstep_spec (window_fraction bd t)"
    using False by (simp add: ramp_def fraction_le_zero fraction_ge_one)
  show ?thesis unfolding r using assms False by (intro spec_small) linarith
qed

lemma ramp_high:
  assumes "1 - 50 * err_unit \<le> window_fraction bd t"
  shows "\<bar>1 - ramp bd t\<bar> \<le> 50 * err_unit"
proof (cases "1 \<le> window_fraction bd t")
  case True
  note u = err_unit_pos err_unit_small
  have "\<not> window_fraction bd t \<le> 0" using True by linarith
  then show ?thesis using True u by (simp add: ramp_def fraction_le_zero fraction_ge_one)
next
  case False
  note u = err_unit_pos err_unit_small
  have "\<not> window_fraction bd t \<le> 0" using assms u by linarith
  then have r: "ramp bd t = smoothstep_spec (window_fraction bd t)"
    using False by (simp add: ramp_def fraction_le_zero fraction_ge_one)
  show ?thesis unfolding r using assms False by (intro spec_near_one) linarith
qed

lemma ramp_mid:
  assumes "- (50 * err_unit) \<le> window_fraction bd t"
    and "window_fraction bd t \<le> 1 + 50 * err_unit"
  shows "\<bar>smoothstep_spec (window_fraction bd t) - ramp bd t\<bar> \<le> 50 * err_unit"
proof -
  note u = err_unit_pos err_unit_small
  consider "window_fraction bd t \<le> 0" | "1 \<le> window_fraction bd t"
    | "\<not> window_fraction bd t \<le> 0" "\<not> 1 \<le> window_fraction bd t" by blast
  then show ?thesis
  proof cases
    case 1
    then have "ramp bd t = 0" by (simp add: ramp_def fraction_le_zero)
    moreover have "\<bar>smoothstep_spec (window_fraction bd t)\<bar> \<le> 50 * err_unit"
      using assms(1) 1 by (intro spec_small) linarith
    ultimately show ?thesis by simp
  next
    case 2
    then have "\<not> window_fraction bd t \<le> 0" by linarith
    then have "ramp bd t = 1" using 2 by (simp add: ramp_def fraction_le_zero fraction_ge_one)
    moreover have "\<bar>1 - smoothstep_spec (window_fraction bd t)\<bar> \<le> 50 * err_unit"
      using assms(2) 2 by (intro spec_near_one) linarith
    ultimately show ?thesis by linarith
  next
    case 3
    then have "ramp bd t = smoothstep_spec (window_fraction bd t)"
      by (simp add: ramp_def fraction_le_zero fraction_ge_one)
    then show ?thesis using u by simp
  qed
qed


lemma Math_round_near: "\<bar>of_int (Math_round x) - x\<bar> \<le> 1 / 2"
  unfolding Math_round_def by linarith

lemma spec_bounded:
  assumes "- (1 / 10) \<le> x" and "x \<le> 11 / 10"
  shows "\<bar>smoothstep_spec x\<bar> \<le> 4"
proof -
  have a: "\<bar>x\<bar> \<le> 11 / 10" using assms by linarith
  have b: "\<bar>3 - 2 * x\<bar> \<le> 32 / 10" using assms by linarith
  have "\<bar>x * x\<bar> \<le> 11 / 10 * (11 / 10)" using a a by (rule abs_prod_bound)
  then have "\<bar>x * x * (3 - 2 * x)\<bar> \<le> 11 / 10 * (11 / 10) * (32 / 10)"
    using b by (rule abs_prod_bound)
  then show ?thesis by (simp add: smoothstep_spec_def power2_eq_square)
qed

lemma window_channel_close:
  assumes "1 / 4 \<le> bd" and "bd \<le> 3 / 4"
    and "0 \<le> v" and "v \<le> 255" and "0 \<le> w" and "w \<le> 255"
  shows "\<bar>of_int (window_channel bd v w t) - (of_int v + (of_int w - of_int v) * ramp bd t)\<bar>
           \<le> 1 / 2 + 1 / 10 ^ 9"
proof -
  note u = err_unit_pos err_unit_small
  define d :: real where "d = of_int w - of_int v"
  have d: "\<bar>d\<bar> \<le> 255" using assms(3-6) by (simp add: d_def)
  have lo: "\<bar>fsub bd halfTrans - (bd - 35 / 1000)\<bar> \<le> 3 * err_unit"
    using assms(1,2) by (intro lo_near) linarith+
  have hi: "\<bar>fadd bd halfTrans - (bd + 35 / 1000)\<bar> \<le> 3 * err_unit"
    using assms(1,2) by (intro hi_near) linarith+
  have fx: "7 * window_fraction bd t = 100 * (t - (bd - 35 / 1000))"
    by (simp add: window_fraction_def)
  consider (above) "t > fadd bd halfTrans"
    | (inside) "\<not> t > fadd bd halfTrans" "t > fsub bd halfTrans"
    | (below) "\<not> t > fadd bd halfTrans" "\<not> t > fsub bd halfTrans" by blast
  then show ?thesis
  proof cases
    case above
    have "bd + 35 / 1000 - 3 * err_unit < t" using above hi by linarith
    then have "7 - 300 * err_unit < 7 * window_fraction bd t" unfolding fx by argo
    then have "1 - 50 * err_unit \<le> window_fraction bd t" using u by linarith
    then have "\<bar>1 - ramp bd t\<bar> \<le> 50 * err_unit" by (rule ramp_high)
    then have "\<bar>d * (1 - ramp bd t)\<bar> \<le> 255 * (50 * err_unit)"
      using d by (rule abs_prod_bound [rotated])
    moreover have "of_int w - (of_int v + d * ramp bd t) = d * (1 - ramp bd t)"
      by (simp add: d_def algebra_simps)
    ultimately have "\<bar>of_int w - (of_int v + d * ramp bd t)\<bar> \<le> 255 * (50 * err_unit)"
      by simp
    then show ?thesis using above u by (simp add: window_channel_def d_def)
  next
    case below
    have "t \<le> bd - 35 / 1000 + 3 * err_unit" using below lo by linarith
    then have "7 * window_fraction bd t \<le> 300 * err_unit" unfolding fx by argo
    then have "window_fraction bd t \<le> 50 * err_unit" using u by linarith
    then have "\<bar>ramp bd t\<bar> \<le> 50 * err_unit" by (rule ramp_low)
    then have "\<bar>d * ramp bd t\<bar> \<le> 255 * (50 * err_unit)"
      using d by (rule abs_prod_bound [rotated])
    then have "\<bar>of_int v - (of_int v + d * ramp bd t)\<bar> \<le> 255 * (50 * err_unit)"
      by simp
    then show ?thesis using below u by (simp add: window_channel_def d_def)
  next
    case inside
    define f where "f = fdiv (fsub t (fsub bd halfTrans)) (fmul 2 halfTrans)"
    define x where "x = fadd (of_int v) (fmul (fsub (of_int w) (of_int v)) (smoothstep f))"
    have t: "fsub bd halfTrans < t" "t \<le> fadd bd halfTrans" using inside by simp_all
    note fr = frac_near [OF assms(1,2) t, folded f_def]
    have r1: "- (1 / 10) \<le> window_fraction bd t" using fr(2) u by linarith
    have r2: "window_fraction bd t \<le> 11 / 10" using fr(3) u by linarith
    have s: "\<bar>smoothstep f - smoothstep_spec (window_fraction bd t)\<bar> \<le> 3000 * err_unit"
      using fr(1) r1 r2 by (rule smoothstep_near)
    have S: "\<bar>smoothstep_spec (window_fraction bd t)\<bar> \<le> 4" using r1 r2 by (rule spec_bounded)
    have m: "\<bar>x - (of_int v + d * smoothstep_spec (window_fraction bd t))\<bar> \<le> 900000 * err_unit"
      unfolding x_def d_def using s S assms(3-6) by (rule mix_near)
    have g: "\<bar>smoothstep_spec (window_fraction bd t) - ramp bd t\<bar> \<le> 50 * err_unit"
      using fr(2,3) by (rule ramp_mid)
    have "\<bar>d * (smoothstep_spec (window_fraction bd t) - ramp bd t)\<bar> \<le> 255 * (50 * err_unit)"
      using d g by (rule abs_prod_bound)
    then have "\<bar>d * smoothstep_spec (window_fraction bd t) - d * ramp bd t\<bar> \<le> 12750 * err_unit"
      by (simp add: algebra_simps)
    then have near: "\<bar>x - (of_int v + d * ramp bd t)\<bar> \<le> 912750 * err_unit"
      using m by linarith
    have r: "\<bar>of_int (Math_round x) - x\<bar> \<le> 1 / 2" by (rule Math_round_near)
    have "\<bar>of_int (Math_round x) - (of_int v + d * ramp bd t)\<bar> \<le> 1 / 2 + 912750 * err_unit"
      using near r by linarith
    moreover have "window_channel bd v w t = Math_round x"
      using inside by (simp add: window_channel_def mix_channel_def x_def f_def)
    ultimately show ?thesis using u by (simp add: d_def)
  qed
qed

lemma threshold_bounds:
  "fsub (1 / 4) halfTrans < 22 / 100" "21 / 100 < fsub (1 / 4) halfTrans"
  "fadd (1 / 4) halfTrans < 29 / 100" "28 / 100 < fadd (1 / 4) halfTrans"
  "fsub (1 / 2) halfTrans < 47 / 100" "46 / 100 < fsub (1 / 2) halfTrans"
  "fadd (1 / 2) halfTrans < 54 / 100" "53 / 100 < fadd (1 / 2) halfTrans"
  "fsub (3 / 4) halfTrans < 72 / 100" "71 / 100 < fsub (3 / 4) halfTrans"
  "fadd (3 / 4) halfTrans < 79 / 100" "78 / 100 < fadd (3 / 4) halfTrans"
  using lo_near [of "1 / 4"] lo_near [of "1 / 2"] lo_near [of "3 / 4"]
    hi_near [of "1 / 4"] hi_near [of "1 / 2"] hi_near [of "3 / 4"] err_unit_small err_unit_pos
  by simp_all

lemma window_color_above:
  "fadd bd halfTrans < t \<Longrightarrow> window_color bd v w t = w"
  by (cases v; cases w) (simp add: window_channel_def)

lemma window_color_below:
  "\<not> fadd bd halfTrans < t \<Longrightarrow> \<not> fsub bd halfTrans < t \<Longrightarrow> window_color bd v w t = v"
  by (cases v; cases w) (simp add: window_channel_def)

lemma window_color_inside:
  "\<not> fadd bd halfTrans < t \<Longrightarrow> fsub bd halfTrans < t \<Longrightarrow>
     window_color bd v w t
       = blend v w (smoothstep (fdiv (fsub t (fsub bd halfTrans)) (fmul 2 halfTrans)))"
  by (cases v; cases w) (simp add: window_channel_def)

lemma window_step:
  assumes "at_index palette b = Some v" and "at_index palette (Suc b) = Some w"
    and "c = Some v"
  shows "(if t > fadd bd halfTrans then
            lerp_loop palette t (Suc b) bds (at_index palette (Suc b))
          else if t > fsub bd halfTrans then
            (case (at_index palette b, at_index palette (Suc b)) of
               (Some v, Some w) \<Rightarrow>
                 let f = fdiv (fsub t (fsub bd halfTrans)) (fmul 2 halfTrans);
                     s = smoothstep f
                 in lerp_loop palette t (Suc b) bds (Some (blend v w s))
             | _ \<Rightarrow> Inl TypeError)
          else lerp_loop palette t (Suc b) bds c)
       = lerp_loop palette t (Suc b) bds (Some (window_color bd v w t))"
  using assms
  by (simp add: Let_def window_color_above window_color_below window_color_inside)

lemma code_view0:
  assumes "length palette = 4" and "t \<le> 4 / 10"
  shows "lerpColors palette t = Inr (Some (window_color (1 / 4) (palette ! 0) (palette ! 1) t))"
proof -
  note th = threshold_bounds
  have skip1: "\<not> t > fadd (1 / 2) halfTrans" "\<not> t > fsub (1 / 2) halfTrans"
    using th assms(2) by linarith+
  have skip2: "\<not> t > fadd (3 / 4) halfTrans" "\<not> t > fsub (3 / 4) halfTrans"
    using th assms(2) by linarith+
  have ix: "at_index palette 0 = Some (palette ! 0)" "at_index palette (Suc 0) = Some (palette ! 1)"
    using assms(1) by (simp_all add: at_index_def)
  have "lerpColors palette t
      = lerp_loop palette t (Suc 0) [1 / 2, 3 / 4]
          (Some (window_color (1 / 4) (palette ! 0) (palette ! 1) t))"
    unfolding lerpColors_def boundaries_def lerp_loop.simps(2) [of palette t 0]
    by (rule window_step [OF ix]) (rule ix(1))
  also have "\<dots> = Inr (Some (window_color (1 / 4) (palette ! 0) (palette ! 1) t))"
    using skip1 skip2 by simp
  finally show ?thesis .
qed

lemma code_view1:
  assumes "length palette = 4" and "3 / 10 \<le> t" and "t \<le> 7 / 10"
  shows "lerpColors palette t = Inr (Some (window_color (1 / 2) (palette ! 1) (palette ! 2) t))"
proof -
  note th = threshold_bounds
  have pass0: "t > fadd (1 / 4) halfTrans" using th assms(2) by linarith
  have skip2: "\<not> t > fadd (3 / 4) halfTrans" "\<not> t > fsub (3 / 4) halfTrans"
    using th assms(3) by linarith+
  have ix: "at_index palette (Suc 0) = Some (palette ! 1)"
      "at_index palette (Suc (Suc 0)) = Some (palette ! 2)"
    using assms(1) by (simp_all add: at_index_def numeral_2_eq_2)
  have "lerpColors palette t = lerp_loop palette t (Suc 0) [1 / 2, 3 / 4] (Some (palette ! 1))"
    using pass0 ix(1) by (simp add: lerpColors_def boundaries_def)
  also have "\<dots> = lerp_loop palette t (Suc (Suc 0)) [3 / 4]
          (Some (window_color (1 / 2) (palette ! 1) (palette ! 2) t))"
    unfolding lerp_loop.simps(2) [of palette t "Suc 0"]
    by (rule window_step [OF ix]) simp
  also have "\<dots> = Inr (Some (window_color (1 / 2) (palette ! 1) (palette ! 2) t))"
    using skip2 by simp
  finally show ?thesis .
qed

lemma code_view2:
  assumes "length palette = 4" and "6 / 10 \<le> t"
  shows "lerpColors palette t = Inr (Some (window_color (3 / 4) (palette ! 2) (palette ! 3) t))"
proof -
  note th = threshold_bounds
  have pass0: "t > fadd (1 / 4) halfTrans" using th assms(2) by linarith
  have pass1: "t > fadd (1 / 2) halfTrans" using th assms(2) by linarith
  have ix: "at_index palette (Suc (Suc 0)) = Some (palette ! 2)"
      "at_index palette (Suc (Suc (Suc 0))) = Some (palette ! 3)"
    using assms(1) by (simp_all add: at_index_def numeral_2_eq_2 numeral_3_eq_3)
  have "lerpColors palette t = lerp_loop palette t (Suc (Suc 0)) [3 / 4] (Some (palette ! 2))"
    using pass0 pass1 ix(1) by (simp add: lerpColors_def boundaries_def)
  also have "\<dots> = lerp_loop palette t (Suc (Suc (Suc 0))) []
          (Some (window_color (3 / 4) (palette ! 2) (palette ! 3) t))"
    unfolding lerp_loop.simps(2) [of palette t "Suc (Suc 0)"]
    by (rule window_step [OF ix]) simp
  finally show ?thesis by simp
qed

lemma blend_exact_zero: "blend_exact v w 0 = exact_of v"
  by (cases v; cases w) simp

lemma blend_exact_one: "blend_exact v w 1 = exact_of w"
  by (cases v; cases w) simp

lemma spec_ends: "smoothstep_spec 0 = 0" "smoothstep_spec 1 = 1"
  by (simp_all add: smoothstep_spec_def)

lemma in_window_iff:
  fixes t bd :: real
  shows "(\<bar>t - bd\<bar> \<le> 35 / 1000) = (bd - 35 / 1000 \<le> t \<and> t \<le> bd + 35 / 1000)"
  by linarith

lemma exact_view0:
  assumes "t \<le> 4 / 10"
  shows "colorAt_exact palette t = blend_exact (palette ! 0) (palette ! 1) (ramp (1 / 4) t)"
proof -
  consider "t < 215 / 1000" | "t = 215 / 1000" | "215 / 1000 < t" "t < 285 / 1000"
    | "t = 285 / 1000" | "285 / 1000 < t" by linarith
  then show ?thesis
  proof cases
    case 1
    then show ?thesis
      unfolding colorAt_exact_def in_window_iff
      by (simp add: ramp_def band_of_def blend_exact_zero)
  next
    case 2
    show ?thesis
      unfolding 2 colorAt_exact_def in_window_iff
      by (simp add: ramp_def window_fraction_def spec_ends)
  next
    case 3
    then show ?thesis
      unfolding colorAt_exact_def in_window_iff by (simp add: ramp_def)
  next
    case 4
    show ?thesis
      unfolding 4 colorAt_exact_def in_window_iff
      by (simp add: ramp_def window_fraction_def spec_ends)
  next
    case 5
    then show ?thesis
      unfolding colorAt_exact_def in_window_iff using assms
      by (simp add: ramp_def band_of_def blend_exact_one)
  qed
qed

lemma exact_view1:
  assumes "3 / 10 \<le> t" and "t \<le> 7 / 10"
  shows "colorAt_exact palette t = blend_exact (palette ! 1) (palette ! 2) (ramp (1 / 2) t)"
proof -
  consider "t < 465 / 1000" | "t = 465 / 1000" | "465 / 1000 < t" "t < 535 / 1000"
    | "t = 535 / 1000" | "535 / 1000 < t" by linarith
  then show ?thesis
  proof cases
    case 1
    then show ?thesis
      unfolding colorAt_exact_def in_window_iff using assms
      by (simp add: ramp_def band_of_def blend_exact_zero)
  next
    case 2
    show ?thesis
      unfolding 2 colorAt_exact_def in_window_iff
      by (simp add: ramp_def window_fraction_def spec_ends)
  next
    case 3
    then show ?thesis
      unfolding colorAt_exact_def in_window_iff by (simp add: ramp_def)
  next
    case 4
    show ?thesis
      unfolding 4 colorAt_exact_def in_window_iff
      by (simp add: ramp_def window_fraction_def spec_ends)
  next
    case 5
    then show ?thesis
      unfolding colorAt_exact_def in_window_iff using assms
      by (simp add: ramp_def band_of_def blend_exact_one numeral_2_eq_2)
  qed
qed

lemma exact_view2:
  assumes "6 / 10 \<le> t"
  shows "colorAt_exact palette t = blend_exact (palette ! 2) (palette ! 3) (ramp (3 / 4) t)"
proof -
  consider "t < 715 / 1000" | "t = 715 / 1000" | "715 / 1000 < t" "t < 785 / 1000"
    | "t = 785 / 1000" | "785 / 1000 < t" by linarith
  then show ?thesis
  proof cases
    case 1
    then show ?thesis
      unfolding colorAt_exact_def in_window_iff using assms
      by (simp add: ramp_def band_of_def blend_exact_zero numeral_2_eq_2)
  next
    case 2
    show ?thesis
      unfolding 2 colorAt_exact_def in_window_iff
      by (simp add: ramp_def window_fraction_def spec_ends)
  next
    case 3
    then show ?thesis
      unfolding colorAt_exact_def in_window_iff by (simp add: ramp_def)
  next
    case 4
    show ?thesis
      unfolding 4 colorAt_exact_def in_window_iff
      by (simp add: ramp_def window_fraction_def spec_ends)
  next
    case 5
    then show ?thesis
      unfolding colorAt_exact_def in_window_iff
      by (simp add: ramp_def band_of_def blend_exact_one numeral_3_eq_3)
  qed
qed

lemma window_color_close:
  assumes "1 / 4 \<le> bd" and "bd \<le> 3 / 4" and "rgb_ok v" and "rgb_ok w"
  shows "close_to (window_color bd v w t) (blend_exact v w (ramp bd t))"
proof -
  obtain r g b where v: "v = (r, g, b)" by (cases v)
  obtain r' g' b' where w: "w = (r', g', b')" by (cases w)
  have ok: "0 \<le> r" "r \<le> 255" "0 \<le> g" "g \<le> 255" "0 \<le> b" "b \<le> 255"
      "0 \<le> r'" "r' \<le> 255" "0 \<le> g'" "g' \<le> 255" "0 \<le> b'" "b' \<le> 255"
    using assms(3,4) by (simp_all add: v w)
  show ?thesis
    unfolding v w
    using window_channel_close [OF assms(1,2) ok(1,2,7,8), of t]
      window_channel_close [OF assms(1,2) ok(3,4,9,10), of t]
      window_channel_close [OF assms(1,2) ok(5,6,11,12), of t]
    by simp
qed

lemma close_round:
  fixes x :: real
  assumes "\<bar>of_int c - x\<bar> \<le> 1 / 2 + 1 / 10 ^ 9"
  shows "\<bar>c - round x\<bar> \<le> 1"
proof -
  have "\<bar>of_int (round x) - x\<bar> \<le> 1 / 2" by (rule of_int_round_abs_le)
  moreover have "\<bar>of_int c - x\<bar> \<le> 1 / 2 + 1 / 1000000000" using assms by simp
  ultimately have "\<bar>(of_int c :: real) - of_int (round x)\<bar> < 2" by linarith
  then have "\<bar>of_int (c - round x) :: real\<bar> < 2" by simp
  then have "\<bar>c - round x\<bar> < 2" by linarith
  then show ?thesis by simp
qed

lemma close_clear:
  fixes x :: real
  assumes "\<bar>of_int c - x\<bar> \<le> 1 / 2 + 1 / 10 ^ 9" and "clear_of_half x"
  shows "c = round x"
proof -
  define n where "n = \<lfloor>x\<rfloor>"
  have fl: "of_int n \<le> x" "x < of_int n + 1" by (simp_all add: n_def)
  have far: "1 / 1000000000 < \<bar>x - (of_int n + 1 / 2)\<bar>"
    using assms(2) by (simp add: clear_of_half_def n_def)
  have near: "\<bar>of_int c - x\<bar> \<le> 1 / 2 + 1 / 1000000000" using assms(1) by simp
  show ?thesis
  proof (cases "x < of_int n + 1 / 2")
    case True
    then have r: "round x = n" unfolding round_def using fl by (intro floor_unique) linarith+
    have "of_int n - 1 < (of_int c :: real)" "(of_int c :: real) < of_int n + 1"
      using near far True fl by linarith+
    then have "n - 1 < c" "c < n + 1" by linarith+
    then show ?thesis using r by simp
  next
    case False
    then have r: "round x = n + 1" unfolding round_def using fl by (intro floor_unique) simp_all
    have "of_int n < (of_int c :: real)" "(of_int c :: real) < of_int n + 2"
      using near far False fl by linarith+
    then have "n < c" "c < n + 2" by linarith+
    then show ?thesis using r by simp
  qed
qed

lemma close_gap: "close_to c e \<Longrightarrow> channel_gap c (round_channels e) \<le> 1"
  by (cases c; cases e) (simp add: close_round)

lemma close_equal: "close_to c e \<Longrightarrow> all_clear_of_half e \<Longrightarrow> c = round_channels e"
  by (cases c; cases e) (simp add: close_clear)

lemma close_exact_of: "close_to c (exact_of v) \<Longrightarrow> c = v"
proof -
  have a: "d = k" if "\<bar>(of_int d :: real) - of_int k\<bar> \<le> 1 / 2 + 1 / 10 ^ 9" for d k :: int
  proof -
    have "\<bar>of_int (d - k) :: real\<bar> < 1" using that by simp
    then have "\<bar>d - k\<bar> < 1" by linarith
    then show ?thesis by simp
  qed
  show "close_to c (exact_of v) \<Longrightarrow> c = v"
    by (cases c; cases v) (simp add: a)
qed

lemma lerp_close:
  assumes len: "length palette = 4" and ok: "\<forall>c\<in>set palette. rgb_ok c"
  shows "\<exists>c. lerpColors palette t = Inr (Some c) \<and> close_to c (colorAt_exact palette t)"
proof -
  have p: "rgb_ok (palette ! 0)" "rgb_ok (palette ! 1)" "rgb_ok (palette ! 2)" "rgb_ok (palette ! 3)"
    using len ok by (simp_all add: all_set_conv_all_nth)
  consider "t \<le> 4 / 10" | "4 / 10 < t" "t \<le> 65 / 100" | "65 / 100 < t" by linarith
  then show ?thesis
  proof cases
    case 1
    have "close_to (window_color (1 / 4) (palette ! 0) (palette ! 1) t)
            (blend_exact (palette ! 0) (palette ! 1) (ramp (1 / 4) t))"
      using p by (intro window_color_close) simp_all
    then show ?thesis using code_view0 [OF len 1] exact_view0 [OF 1, of palette] by simp
  next
    case 2
    then have r: "3 / 10 \<le> t" "t \<le> 7 / 10" by linarith+
    have "close_to (window_color (1 / 2) (palette ! 1) (palette ! 2) t)
            (blend_exact (palette ! 1) (palette ! 2) (ramp (1 / 2) t))"
      using p by (intro window_color_close) simp_all
    then show ?thesis using code_view1 [OF len r] exact_view1 [OF r, of palette] by simp
  next
    case 3
    then have r: "6 / 10 \<le> t" by linarith
    have "close_to (window_color (3 / 4) (palette ! 2) (palette ! 3) t)
            (blend_exact (palette ! 2) (palette ! 3) (ramp (3 / 4) t))"
      using p by (intro window_color_close) simp_all
    then show ?thesis using code_view2 [OF len r] exact_view2 [OF r, of palette] by simp
  qed
qed

lemma exact_in_band:
  assumes "35 / 1000 < \<bar>t - 1 / 4\<bar>" and "35 / 1000 < \<bar>t - 1 / 2\<bar>" and "35 / 1000 < \<bar>t - 3 / 4\<bar>"
  shows "colorAt_exact palette t = exact_of (palette ! band_of t)"
  using assms by (simp add: colorAt_exact_def)

lemma lerp_in_band:
  assumes "length palette = 4" and "\<forall>c\<in>set palette. rgb_ok c"
    and "35 / 1000 < \<bar>t - 1 / 4\<bar>" and "35 / 1000 < \<bar>t - 1 / 2\<bar>" and "35 / 1000 < \<bar>t - 3 / 4\<bar>"
  shows "lerpColors palette t = Inr (Some (palette ! band_of t))"
proof -
  obtain c where c: "lerpColors palette t = Inr (Some c)" "close_to c (colorAt_exact palette t)"
    using lerp_close [OF assms(1,2)] by blast
  have "c = palette ! band_of t"
    using c(2) unfolding exact_in_band [OF assms(3-5)] by (rule close_exact_of)
  then show ?thesis using c(1) by simp
qed

text \<open>
  Claim C3, as amended. For every palette of four RGB colours and every \<open>t\<close> in \<open>[0, 1]\<close>,
  \<open>lerpColors\<close> returns a colour whose every channel is within 1/2 + 1/10^9 of the exact
  blend of the reference definition. So it differs from the rounded reference by at most
  one in a channel, it equals the rounded reference whenever every exact blend is more than
  1/10^9 away from the middle between two integers, and when \<open>t\<close> is more than 0.035 away
  from every boundary it is the palette entry of the band. At \<open>t = 0\<close> it is the first
  palette entry and at \<open>t = 1\<close> the last.
\<close>

theorem lerpColors_near_reference:
  assumes "length palette = 4" and "\<forall>c\<in>set palette. rgb_ok c" and "0 \<le> t" and "t \<le> 1"
  shows "(\<exists>c. lerpColors palette t = Inr (Some c)
            \<and> close_to c (colorAt_exact palette t)
            \<and> channel_gap c (colorAt_spec palette t) \<le> 1
            \<and> (all_clear_of_half (colorAt_exact palette t) \<longrightarrow> c = colorAt_spec palette t)
            \<and> (35 / 1000 < \<bar>t - 1 / 4\<bar> \<and> 35 / 1000 < \<bar>t - 1 / 2\<bar> \<and> 35 / 1000 < \<bar>t - 3 / 4\<bar>
                 \<longrightarrow> c = palette ! band_of t))
       \<and> lerpColors palette 0 = Inr (Some (palette ! 0))
       \<and> lerpColors palette 1 = Inr (Some (palette ! 3))"
proof -
  obtain c where c: "lerpColors palette t = Inr (Some c)" "close_to c (colorAt_exact palette t)"
    using lerp_close [OF assms(1,2)] by blast
  have gap: "channel_gap c (colorAt_spec palette t) \<le> 1"
    unfolding colorAt_spec_def using c(2) by (rule close_gap)
  have eq: "all_clear_of_half (colorAt_exact palette t) \<longrightarrow> c = colorAt_spec palette t"
    unfolding colorAt_spec_def using c(2) by (simp add: close_equal)
  have band: "35 / 1000 < \<bar>t - 1 / 4\<bar> \<and> 35 / 1000 < \<bar>t - 1 / 2\<bar> \<and> 35 / 1000 < \<bar>t - 3 / 4\<bar>
                 \<longrightarrow> c = palette ! band_of t"
    using lerp_in_band [OF assms(1,2), of t] c(1) by simp
  have z: "lerpColors palette 0 = Inr (Some (palette ! 0))"
    using lerp_in_band [OF assms(1,2), of 0] by (simp add: band_of_def)
  have e: "lerpColors palette 1 = Inr (Some (palette ! 3))"
    using lerp_in_band [OF assms(1,2), of 1] by (simp add: band_of_def numeral_3_eq_3)
  show ?thesis using c gap eq band z e by blast
qed

lemma rnd_value:
  assumes "2 powi k \<le> \<bar>x\<bar>" and "\<bar>x\<bar> < 2 powi (k + 1)"
    and "round_even (x / 2 powi (k - 52)) = m" and "y = of_int m * 2 powi (k - 52)"
  shows "rnd x = y"
  using rnd_eval [OF assms(1,2)] assms(3,4) by simp

lemma bg_at_half: "lerpColors BG_RGB (1 / 2) = Inr (Some (237, 237, 217))"
proof -
  have h: "halfTrans = 1261007895663739 / 36028797018963968"
    unfolding halfTrans_def
    by (rule rnd_value [where k = "- 5" and m = "5044031582654956"]) (simp_all add: round_even_def)
  have lo: "fsub (1 / 2) halfTrans = 4188347653454561 / 9007199254740992"
    unfolding h fsub_def
    by (rule rnd_value [where k = "- 2" and m = "8376695306909122"]) (simp_all add: round_even_def)
  have a1: "fsub (1 / 2) (4188347653454561 / 9007199254740992) = 315251973915935 / 9007199254740992"
    unfolding fsub_def
    by (rule rnd_value [where k = "- 5" and m = "5044031582654960"]) (simp_all add: round_even_def)
  have w2: "fmul 2 halfTrans = 1261007895663739 / 18014398509481984"
    unfolding h fmul_def
    by (rule rnd_value [where k = "- 4" and m = "5044031582654956"]) (simp_all add: round_even_def)
  have f: "fdiv (315251973915935 / 9007199254740992) (1261007895663739 / 18014398509481984) = 1125899906842625 / 2251799813685248"
    unfolding fdiv_def
    by (rule rnd_value [where k = "- 1" and m = "4503599627370500"]) (simp_all add: round_even_def)
  have q: "fmul (1125899906842625 / 2251799813685248) (1125899906842625 / 2251799813685248) = 562949953421313 / 2251799813685248"
    unfolding fmul_def
    by (rule rnd_value [where k = "- 2" and m = "4503599627370504"]) (simp_all add: round_even_def)
  have m: "fmul 2 (1125899906842625 / 2251799813685248) = 1125899906842625 / 1125899906842624"
    unfolding fmul_def
    by (rule rnd_value [where k = "0" and m = "4503599627370500"]) (simp_all add: round_even_def)
  have g: "fsub 3 (1125899906842625 / 1125899906842624) = 2251799813685247 / 1125899906842624"
    unfolding fsub_def
    by (rule rnd_value [where k = "0" and m = "9007199254740988"]) (simp_all add: round_even_def)
  have s: "fmul (562949953421313 / 2251799813685248) (2251799813685247 / 1125899906842624) = 2251799813685251 / 4503599627370496"
    unfolding fmul_def
    by (rule rnd_value [where k = "- 1" and m = "4503599627370502"]) (simp_all add: round_even_def)
  have dr: "fsub 225 250 = - 25"
    unfolding fsub_def
    by (rule rnd_value [where k = "4" and m = "- 7036874417766400"]) (simp_all add: round_even_def)
  have pr: "fmul (- 25) (2251799813685251 / 4503599627370496) = - (7036874417766409 / 562949953421312)"
    unfolding fmul_def
    by (rule rnd_value [where k = "3" and m = "- 7036874417766409"]) (simp_all add: round_even_def)
  have xr: "fadd 250 (- (7036874417766409 / 562949953421312)) = 8356288371097599 / 35184372088832"
    unfolding fadd_def
    by (rule rnd_value [where k = "7" and m = "8356288371097599"]) (simp_all add: round_even_def)
  have dg: "fsub 236 238 = - 2"
    unfolding fsub_def
    by (rule rnd_value [where k = "1" and m = "- 4503599627370496"]) (simp_all add: round_even_def)
  have pg: "fmul (- 2) (2251799813685251 / 4503599627370496) = - (2251799813685251 / 2251799813685248)"
    unfolding fmul_def
    by (rule rnd_value [where k = "0" and m = "- 4503599627370502"]) (simp_all add: round_even_def)
  have xg: "fadd 238 (- (2251799813685251 / 2251799813685248)) = 237"
    unfolding fadd_def
    by (rule rnd_value [where k = "7" and m = "8338696185053184"]) (simp_all add: round_even_def)
  have db: "fsub 235 198 = 37"
    unfolding fsub_def
    by (rule rnd_value [where k = "5" and m = "5207287069147136"]) (simp_all add: round_even_def)
  have pb: "fmul (37) (2251799813685251 / 4503599627370496) = 5207287069147143 / 281474976710656"
    unfolding fmul_def
    by (rule rnd_value [where k = "4" and m = "5207287069147143"]) (simp_all add: round_even_def)
  have xb: "fadd 198 (5207287069147143 / 281474976710656) = 7617416557232129 / 35184372088832"
    unfolding fadd_def
    by (rule rnd_value [where k = "7" and m = "7617416557232129"]) (simp_all add: round_even_def)
  have sm: "smoothstep (fdiv (fsub (1 / 2) (fsub (1 / 2) halfTrans)) (fmul 2 halfTrans))
      = 2251799813685251 / 4503599627370496"
    by (simp only: smoothstep_def lo a1 w2 f q m g s)
  have inside: "\<not> (1 / 2 :: real) > fadd (1 / 2) halfTrans" "(1 / 2 :: real) > fsub (1 / 2) halfTrans"
    using threshold_bounds by linarith+
  have cr: "window_channel (1 / 2) 250 225 (1 / 2) = 237"
    using inside by (simp add: window_channel_def mix_channel_def sm dr pr xr Math_round_def)
  have cg: "window_channel (1 / 2) 238 236 (1 / 2) = 237"
    using inside by (simp add: window_channel_def mix_channel_def sm dg pg xg Math_round_def)
  have cb: "window_channel (1 / 2) 198 235 (1 / 2) = 217"
    using inside by (simp add: window_channel_def mix_channel_def sm db pb xb Math_round_def)
  have "lerpColors BG_RGB (1 / 2)
      = Inr (Some (window_color (1 / 2) (BG_RGB ! 1) (BG_RGB ! 2) (1 / 2)))"
    by (rule code_view1) (simp_all add: BG_RGB_def)
  then show ?thesis by (simp add: BG_RGB_def cr cg cb)
qed

lemma bg_reference_at_half: "colorAt_spec BG_RGB (1 / 2) = (238, 237, 217)"
  by (simp add: colorAt_spec_def colorAt_exact_def window_fraction_def smoothstep_spec_def
      BG_RGB_def round_def power2_eq_square)

text \<open>
  Claim C3 as it stands asks for the rounded exact blend inside a transition window.
  With the background palette at \<open>t = 0.5\<close> the exact blend of the red channel is 237.5,
  which the reference rounds to 238; the code computes the weight 0.5000000000000007 and
  the blend 237.49999999999997, and returns 237.
\<close>

theorem lerpColors_differs_from_reference:
  "lerpColors BG_RGB (1 / 2) = Inr (Some (237, 237, 217))
   \<and> colorAt_spec BG_RGB (1 / 2) = (238, 237, 217)"
  using bg_at_half bg_reference_at_half by simp

theorem lerpColors_near_reference_witness:
  "length TRACK_RGB = 4 \<and> (0::real) \<le> 1 / 4 \<and> (1 / 4 :: real) \<le> 1
   \<and> (\<exists>c. lerpColors TRACK_RGB (1 / 4) = Inr (Some c) \<and> channel_gap c (243, 189, 108) \<le> 1)
   \<and> lerpColors TRACK_RGB 0 = Inr (Some (249, 174, 119))
   \<and> lerpColors TRACK_RGB 1 = Inr (Some (196, 185, 224))"
proof -
  have len: "length TRACK_RGB = 4" by (simp add: TRACK_RGB_def)
  have ok: "\<forall>c\<in>set TRACK_RGB. rgb_ok c" by (simp add: TRACK_RGB_def)
  have spec: "colorAt_spec TRACK_RGB (1 / 4) = (243, 189, 108)"
    by (simp add: colorAt_spec_def colorAt_exact_def window_fraction_def smoothstep_spec_def
        TRACK_RGB_def round_def power2_eq_square)
  have ends: "TRACK_RGB ! 0 = (249, 174, 119)" "TRACK_RGB ! 3 = (196, 185, 224)"
    by (simp_all add: TRACK_RGB_def)
  have range: "(0::real) \<le> 1 / 4" "(1 / 4 :: real) \<le> 1" by simp_all
  note main = lerpColors_near_reference [OF len ok range]
  obtain c where "lerpColors TRACK_RGB (1 / 4) = Inr (Some c)"
      "channel_gap c (colorAt_spec TRACK_RGB (1 / 4)) \<le> 1"
    using main by blast
  then have "\<exists>c. lerpColors TRACK_RGB (1 / 4) = Inr (Some c) \<and> channel_gap c (243, 189, 108) \<le> 1"
    unfolding spec by blast
  then show ?thesis using main len ends by simp
qed

section \<open>The day-backward transition\<close>

lemma lerp_track_zero: "lerpColors TRACK_RGB 0 = Inr (Some (249, 174, 119))"
proof -
  have "lerpColors TRACK_RGB 0
      = Inr (Some (window_color (1 / 4) (TRACK_RGB ! 0) (TRACK_RGB ! 1) 0))"
    by (rule code_view0) (simp_all add: TRACK_RGB_def)
  moreover have "\<not> fadd (1 / 4) halfTrans < 0" "\<not> fsub (1 / 4) halfTrans < 0"
    using threshold_bounds by linarith+
  ultimately show ?thesis by (simp add: window_channel_def TRACK_RGB_def)
qed

text \<open>
  Claim C4. When the day number observed is below the previous one, displayed and target
  both become the new progress and a crossfade is created with fade 0 and \<open>fromColor\<close> the
  colour \<open>lerpColors\<close> gives the track palette at \<open>t = 0\<close>. When it is the same or above,
  the crossfade state is left as it was and displayed is not changed.
\<close>

theorem day_backward_trigger:
  "(dayNum < prevDayNum st \<longrightarrow>
      (\<exists>c. lerpColors TRACK_RGB 0 = Inr c
         \<and> observe dayNum progress st
             = Inr (st\<lparr>displayed := progress, target := progress,
                      dayTransition := Some \<lparr>fromColor = c, fade = 0\<rparr>,
                      prevDayNum := dayNum\<rparr>)))
   \<and> (prevDayNum st \<le> dayNum \<longrightarrow>
      observe dayNum progress st = Inr (st\<lparr>target := progress, prevDayNum := dayNum\<rparr>)
      \<and> (\<forall>st'. observe dayNum progress st = Inr st' \<longrightarrow>
             dayTransition st' = dayTransition st \<and> displayed st' = displayed st))"
  by (auto simp: observe_def dayBackwardEffect_def render_target_def lerp_track_zero)

theorem day_backward_trigger_witness:
  "(1::int) < prevDayNum \<lparr>displayed = 5 / 100, target = 5 / 100, dayTransition = None, prevDayNum = 2\<rparr>
   \<and> observe 1 (95 / 100) \<lparr>displayed = 5 / 100, target = 5 / 100, dayTransition = None, prevDayNum = 2\<rparr>
       = Inr \<lparr>displayed = 95 / 100, target = 95 / 100,
              dayTransition = Some \<lparr>fromColor = Some (249, 174, 119), fade = 0\<rparr>, prevDayNum = 1\<rparr>
   \<and> prevDayNum \<lparr>displayed = 6 / 10, target = 6 / 10, dayTransition = None, prevDayNum = 1\<rparr> \<le> 2
   \<and> observe 2 (5 / 100) \<lparr>displayed = 6 / 10, target = 6 / 10, dayTransition = None, prevDayNum = 1\<rparr>
       = Inr \<lparr>displayed = 6 / 10, target = 5 / 100, dayTransition = None, prevDayNum = 2\<rparr>"
  using day_backward_trigger [of 1 "\<lparr>displayed = 5 / 100, target = 5 / 100, dayTransition = None, prevDayNum = 2\<rparr>" "95 / 100"]
    day_backward_trigger [of 2 "\<lparr>displayed = 6 / 10, target = 6 / 10, dayTransition = None, prevDayNum = 1\<rparr>" "5 / 100"]
    lerp_track_zero
  by simp


section \<open>The crossfade in the tick\<close>





section \<open>Path sampling on positive and on zero length\<close>

lemma sample_at_t: "sample_t (sample_at g totalLen n i) = Num (fdiv (of_int i) (of_int n))"
  by (simp add: sample_at_def split: sum.splits prod.splits)

lemma sample_loop_total:
  assumes "n \<noteq> 0" and "\<forall>r. \<exists>p. g (Num r) = Inr p"
  shows "sample_loop g totalLen n js pts = Inr (pts @ map (sample_at g totalLen n) js)"
proof (induction js arbitrary: pts)
  case Nil
  then show ?case by simp
next
  case (Cons i js)
  obtain px py where p: "g (Num (fmul (fdiv (of_int i) (of_int n)) totalLen)) = Inr (px, py)"
    using assms(2) by (metis surj_pair)
  show ?case
    using assms(1) p Cons.IH by (simp add: js_div_def js_times_def sample_at_def)
qed

lemma sample_step_near: "\<bar>sample_step - 14 / 10\<bar> \<le> 2 * err_unit"
proof -
  have "\<bar>rnd (14 / 10) - 14 / 10\<bar> \<le> 0 + 2 * err_unit"
    by (rule rnd_close) simp_all
  then show ?thesis by (simp add: sample_step_def)
qed

lemma sample_step_pos: "0 < sample_step"
  using sample_step_near err_unit_small by linarith

lemma sample_count_pos:
  assumes "0 < totalLen"
  shows "1 \<le> sample_count totalLen"
proof -
  have "0 < totalLen / sample_step" using assms sample_step_pos by simp
  then have "0 < fdiv totalLen sample_step" unfolding fdiv_def by (rule rnd_pos)
  then show ?thesis by (simp add: sample_count_def)
qed

lemma quotient_unit:
  assumes "0 \<le> i" and "i \<le> n" and "0 < n"
  shows "0 \<le> fdiv (of_int i) (of_int n)" and "fdiv (of_int i) (of_int n) \<le> 1"
    and "\<bar>fdiv (of_int i) (of_int n) - of_int i / of_int n\<bar> \<le> (of_int i / of_int n) / 2 ^ 53"
proof -
  have q: "0 \<le> (of_int i :: real) / of_int n" "(of_int i :: real) / of_int n \<le> 1"
    using assms by simp_all
  show "0 \<le> fdiv (of_int i) (of_int n)" unfolding fdiv_def using q(1) by (rule rnd_nonneg)
  show "fdiv (of_int i) (of_int n) \<le> 1" unfolding fdiv_def using q by (rule rnd_le_one)
  show "\<bar>fdiv (of_int i) (of_int n) - of_int i / of_int n\<bar> \<le> (of_int i / of_int n) / 2 ^ 53"
    unfolding fdiv_def using rnd_err [of "of_int i / of_int n"] q(1) by simp
qed

lemma sample_count_near:
  assumes "0 < totalLen" and "totalLen \<le> 10 ^ 6"
  shows "\<bar>sample_count totalLen - \<lceil>totalLen / (14 / 10)\<rceil>\<bar> \<le> 1"
proof -
  note u = err_unit_pos err_unit_small
  have L: "\<bar>totalLen\<bar> \<le> 1000000" using assms by simp
  have d: "\<bar>totalLen / sample_step - totalLen / (14 / 10)\<bar>
             \<le> 0 / (13 / 10) + 1000000 * (2 * err_unit) / (13 / 10 * (13 / 10))"
  proof (rule div_close [OF _ sample_step_near L])
    show "\<bar>totalLen - totalLen\<bar> \<le> 0" by simp
    show "13 / 10 \<le> sample_step" using sample_step_near u by linarith
  qed simp_all
  then have d': "\<bar>totalLen / sample_step - totalLen / (14 / 10)\<bar> \<le> 2000000 * err_unit"
    using u by (simp add: field_simps)
  have ex: "\<bar>totalLen / (14 / 10)\<bar> \<le> 1000000" using assms by (simp add: field_simps)
  have "\<bar>rnd (totalLen / sample_step) - totalLen / (14 / 10)\<bar>
          \<le> 2000000 * err_unit + 1000001 * err_unit"
  proof (rule rnd_close [OF d'])
    show "\<bar>totalLen / sample_step\<bar> \<le> 1000001" using d' ex u by linarith
  qed
  then have "\<bar>fdiv totalLen sample_step - totalLen / (14 / 10)\<bar> < 1"
    using u by (simp add: fdiv_def)
  then show ?thesis unfolding sample_count_def by linarith
qed

text \<open>
  Claim C8, as amended. For every path of positive length, not above 2^53, whose
  \<open>getPointAtLength\<close> answers every finite argument, the sampling returns \<open>n + 1\<close> points,
  where \<open>n = Math.ceil(totalLen / 1.4)\<close> is at least 1 and is taken of the binary64 quotient
  (for lengths up to 10^6 it differs from the ceiling of the exact quotient by at most one);
  the sample at index \<open>i\<close> has as \<open>t\<close> the binary64 quotient \<open>i / n\<close>, which is within a
  relative 1/2^53 of the exact quotient and lies in \<open>[0, 1]\<close>.
\<close>

theorem samplePath_positive_length:
  assumes "0 < totalLen" and "totalLen \<le> 2 ^ 53" and "\<forall>r. \<exists>p. g (Num r) = Inr p"
  shows "\<exists>pts. samplePath g totalLen = Inr pts
           \<and> 1 \<le> sample_count totalLen
           \<and> int (length pts) = sample_count totalLen + 1
           \<and> (totalLen \<le> 10 ^ 6 \<longrightarrow> \<bar>sample_count totalLen - \<lceil>totalLen / (14 / 10)\<rceil>\<bar> \<le> 1)
           \<and> (\<forall>i<length pts.
                 sample_t (pts ! i) = Num (fdiv (real i) (of_int (sample_count totalLen)))
                 \<and> \<bar>fdiv (real i) (of_int (sample_count totalLen))
                      - real i / of_int (sample_count totalLen)\<bar>
                     \<le> (real i / of_int (sample_count totalLen)) / 2 ^ 53
                 \<and> unit_interval (sample_t (pts ! i)))"
proof -
  define n where "n = sample_count totalLen"
  have n: "1 \<le> n" using assms(1) by (simp add: n_def sample_count_pos)
  define pts where "pts = map (sample_at g totalLen n) [0..n]"
  have run: "samplePath g totalLen = Inr pts"
    using sample_loop_total [of n g totalLen "[0..n]" "[]"] n assms(3)
    by (simp add: samplePath_def Let_def n_def [symmetric] pts_def)
  have len: "int (length pts) = n + 1" using n by (simp add: pts_def)
  have near: "totalLen \<le> 10 ^ 6 \<longrightarrow> \<bar>n - \<lceil>totalLen / (14 / 10)\<rceil>\<bar> \<le> 1"
    using sample_count_near [OF assms(1)] by (simp add: n_def)
  have each: "sample_t (pts ! i) = Num (fdiv (real i) (of_int n))
      \<and> \<bar>fdiv (real i) (of_int n) - real i / of_int n\<bar> \<le> (real i / of_int n) / 2 ^ 53
      \<and> unit_interval (sample_t (pts ! i))"
    if "i < length pts" for i
  proof -
    have i: "0 \<le> int i" "int i \<le> n" using that len by simp_all
    then have "[0..n] ! i = int i" by (simp add: nth_upto)
    then have "pts ! i = sample_at g totalLen n (int i)"
      using that by (simp add: pts_def)
    then have t: "sample_t (pts ! i) = Num (fdiv (real i) (of_int n))"
      by (simp add: sample_at_t)
    have pos: "0 < n" using n by simp
    note q = quotient_unit [OF i pos]
    show ?thesis using t q by (simp add: unit_interval_def)
  qed
  show ?thesis
    unfolding n_def [symmetric] using run n len near each by blast
qed

lemma sample_step_value: "sample_step = 3152519739159347 / 2251799813685248"
  unfolding sample_step_def
  by (rule rnd_value [where k = "0" and m = "6305039478318694"]) (simp_all add: round_even_def)

lemma sample_count_21: "sample_count 21 = 16"
proof -
  have q: "fdiv 21 (3152519739159347 / 2251799813685248) = 8444249301319681 / 562949953421312"
    unfolding fdiv_def
    by (rule rnd_value [where k = "3" and m = "8444249301319681"]) (simp_all add: round_even_def)
  show ?thesis unfolding sample_count_def sample_step_value q by simp
qed

lemma sixteenth: "fdiv 1 16 = 1 / 16"
  unfolding fdiv_def
  by (rule rnd_value [where k = "- 4" and m = "4503599627370496"]) (simp_all add: round_even_def)

theorem samplePath_positive_length_witness:
  "(0::real) < 21 \<and> (21::real) \<le> 2 ^ 53 \<and> sample_count 21 = 16
   \<and> (\<exists>pts. samplePath lenient_surface 21 = Inr pts \<and> length pts = 17
         \<and> sample_t (pts ! 1) = Num (1 / 16))"
proof -
  have ok: "\<forall>r. \<exists>p. lenient_surface (Num r) = Inr p" by (simp add: lenient_surface_def)
  have range: "(0::real) < 21" "(21::real) \<le> 2 ^ 53" by simp_all
  obtain pts where p: "samplePath lenient_surface 21 = Inr pts"
      "int (length pts) = sample_count 21 + 1"
      "\<forall>i<length pts. sample_t (pts ! i) = Num (fdiv (real i) (of_int (sample_count 21)))
           \<and> \<bar>fdiv (real i) (of_int (sample_count 21)) - real i / of_int (sample_count 21)\<bar>
                \<le> (real i / of_int (sample_count 21)) / 2 ^ 53
           \<and> unit_interval (sample_t (pts ! i))"
    using samplePath_positive_length [OF range ok] by blast
  from p(2) have l: "length pts = 17" by (simp add: sample_count_21)
  with p(3) have "sample_t (pts ! 1) = Num (fdiv (real 1) (of_int (sample_count 21)))" by simp
  then have "sample_t (pts ! 1) = Num (1 / 16)" by (simp add: sample_count_21 sixteenth)
  with p(1) l show ?thesis by (simp add: sample_count_21)
qed

text \<open>
  Claim C8 as it stands includes the path of length zero and counts with the exact
  quotient. For a path of length zero \<open>n\<close> is 0 and the only sample has \<open>t = 0 / 0\<close>, which is NaN:
  a surface that refuses a non-finite argument makes the sampling fail, and on a surface
  that answers it the sample's \<open>t\<close> is not in \<open>[0, 1]\<close>. And for the length 21 the binary64
  quotient by 1.4 is 15.000000000000002, so that \<open>n\<close> is 16 where the ceiling of the exact
  quotient is 15.
\<close>

theorem samplePath_zero_length:
  "samplePath strict_surface 0 = Inl TypeError
   \<and> samplePath lenient_surface 0 = Inr [\<lparr>sample_x = 0, sample_y = 0, sample_t = NaN\<rparr>]
   \<and> \<not> unit_interval NaN
   \<and> sample_count 21 = 16
   \<and> \<lceil>(21::real) / (14 / 10)\<rceil> = 15"
proof -
  have z: "sample_count 0 = 0" by (simp add: sample_count_def fdiv_def rnd_zero)
  show ?thesis
    by (simp add: samplePath_def z upto.simps js_div_def js_times_def
        strict_surface_def lenient_surface_def unit_interval_def sample_count_21)
qed

section \<open>The label transition machine: timing, distance updates, stale timers\<close>

subsection \<open>Time passing\<close>

lemma advance_add: "advance (a + b) s = advance b (advance a s)"
  by (induction a arbitrary: s) simp_all

lemma ms_step_quiet:
  assumes "\<forall>t\<in>set (pending s). Suc (clock s) < due t"
  shows "ms_step s = s\<lparr>clock := Suc (clock s)\<rparr>"
proof -
  have "filter (\<lambda>t. due t \<le> Suc (clock s)) (pending s) = []"
    using assms by (auto simp: filter_empty_conv)
  moreover have "filter (\<lambda>t. \<not> due t \<le> Suc (clock s)) (pending s) = pending s"
    using assms by (auto simp: filter_id_conv)
  ultimately show ?thesis by (simp add: ms_step_def)
qed

lemma advance_quiet:
  assumes "\<forall>t\<in>set (pending s). clock s + k < due t"
  shows "advance k s = s\<lparr>clock := clock s + k\<rparr>"
  using assms
proof (induction k arbitrary: s)
  case 0
  then show ?case by simp
next
  case (Suc k)
  have q: "\<forall>t\<in>set (pending s). Suc (clock s) < due t" using Suc.prems by auto
  have "advance (Suc k) s = advance k (s\<lparr>clock := Suc (clock s)\<rparr>)"
    using ms_step_quiet [OF q] by simp
  also have "\<dots> = s\<lparr>clock := Suc (clock s)\<rparr>\<lparr>clock := clock (s\<lparr>clock := Suc (clock s)\<rparr>) + k\<rparr>"
    using Suc.prems by (intro Suc.IH) simp
  finally show ?case by simp
qed

lemma advance_until_due:
  assumes "\<forall>t\<in>set (pending s). clock s + k < due t"
  shows "advance (Suc k) s = ms_step (s\<lparr>clock := clock s + k\<rparr>)"
proof -
  have "advance (Suc k) s = advance 1 (advance k s)"
    using advance_add [of k 1 s] by simp
  then show ?thesis using advance_quiet [OF assms] by simp
qed


subsection \<open>What the callbacks and effects leave\<close>

lemma distanceEffect_seen_fields:
  "textPhase (distanceEffect_seen r s) = textPhase s"
  "displayDay (distanceEffect_seen r s) = displayDay s"
  "dayNumber (distanceEffect_seen r s) = dayNumber s"
  "distance (distanceEffect_seen r s) = distance s"
  "prevDay (distanceEffect_seen r s) = prevDay s"
  "mounted (distanceEffect_seen r s) = mounted s"
  "clock (distanceEffect_seen r s) = clock s"
  "pending (distanceEffect_seen r s) = pending s"
  "next_id (distanceEffect_seen r s) = next_id s"
  "cleanup (distanceEffect_seen r s) = cleanup s"
  "distDeps (distanceEffect_seen r s) = (distance r, textPhase r, dayNumber r, displayDay r)"
  by (auto simp: distanceEffect_seen_def Let_def)

lemma distanceEffect_seen_dist:
  "displayDist (distanceEffect_seen r s) =
     (if textPhase r = Idle \<and> dayNumber r = displayDay r
         \<and> distDeps s \<noteq> (distance r, textPhase r, dayNumber r, displayDay r)
      then distance r else displayDist s)"
  by (auto simp: distanceEffect_seen_def Let_def)

lemmas distanceEffect_fields = distanceEffect_seen_fields [of s s, folded distanceEffect_def] for s

lemmas distanceEffect_dist = distanceEffect_seen_dist [of s s, folded distanceEffect_def] for s



lemma run_cleanup_fields:
  "textPhase (run_cleanup s) = textPhase s"
  "displayDay (run_cleanup s) = displayDay s"
  "displayDist (run_cleanup s) = displayDist s"
  "dayNumber (run_cleanup s) = dayNumber s"
  "distance (run_cleanup s) = distance s"
  "prevDay (run_cleanup s) = prevDay s"
  "distDeps (run_cleanup s) = distDeps s"
  "mounted (run_cleanup s) = mounted s"
  "clock (run_cleanup s) = clock s"
  "next_id (run_cleanup s) = next_id s"
  "set (pending (run_cleanup s)) \<subseteq> set (pending s)"
  by (auto simp: run_cleanup_def clearTimeout_def split: option.splits)


lemma transition_same_day_fields:
  assumes "dayNumber s = prevDay s"
  shows "textPhase (transitionEffect s) = textPhase s"
    and "displayDay (transitionEffect s) = displayDay s"
    and "displayDist (transitionEffect s) = displayDist s"
    and "dayNumber (transitionEffect s) = dayNumber s"
    and "distance (transitionEffect s) = distance s"
    and "prevDay (transitionEffect s) = prevDay s"
    and "distDeps (transitionEffect s) = distDeps s"
    and "mounted (transitionEffect s) = mounted s"
    and "clock (transitionEffect s) = clock s"
    and "pending (transitionEffect s) = pending s"
  using assms by (simp_all add: transitionEffect_def)



lemma fire_inv: "label_inv s \<Longrightarrow> label_inv (fire cb s)"
  by (cases cb)
    (auto simp: label_inv_def Let_def distanceEffect_fields setTimeout_def)

lemma foldl_fire_inv: "label_inv s \<Longrightarrow> label_inv (foldl (\<lambda>a t. fire (callback t) a) s ts)"
  by (induction ts arbitrary: s) (simp_all add: fire_inv)

lemma ms_step_inv: "label_inv s \<Longrightarrow> label_inv (ms_step s)"
  unfolding ms_step_def Let_def
  by (rule foldl_fire_inv) (simp add: label_inv_def)

lemma transition_sees_day:
  "prevDay (transitionEffect s) = dayNumber s"
  "dayNumber (transitionEffect s) = dayNumber s"
  by (simp_all add: transitionEffect_def Let_def setTimeout_def)

lemma update_inv:
  assumes "label_inv s"
  shows "label_inv (update d x s)"
proof -
  define s1 where "s1 = s\<lparr>dayNumber := d, distance := x\<rparr>"
  define s2 where "s2 = (if d \<noteq> dayNumber s \<or> x \<noteq> distance s
                         then transitionEffect (run_cleanup s1) else s1)"
  define s3 where "s3 = distanceEffect_seen s1 s2"
  have u: "update d x s = distanceEffect s3"
    by (simp add: update_def Let_def s1_def s2_def s3_def)
  have "prevDay s2 = dayNumber s2"
  proof (cases "d \<noteq> dayNumber s \<or> x \<noteq> distance s")
    case True
    then have "s2 = transitionEffect (run_cleanup s1)" by (simp add: s2_def)
    then show ?thesis by (simp add: transition_sees_day)
  next
    case False
    then have "s2 = s1" and "d = dayNumber s" by (simp_all add: s2_def)
    then show ?thesis using assms by (simp add: s1_def label_inv_def)
  qed
  then show ?thesis
    by (simp add: label_inv_def u distanceEffect_fields s3_def distanceEffect_seen_fields)
qed

lemma unmount_inv: "label_inv s \<Longrightarrow> label_inv (unmount s)"
  by (auto simp: label_inv_def unmount_def run_cleanup_def clearTimeout_def split: option.splits)

lemma reachable_inv: "reachable s \<Longrightarrow> label_inv s"
proof (induction rule: reachable.induct)
  case (reach_mount d x)
  show ?case by (simp add: label_inv_def mount_def)
next
  case (reach_update s d x)
  then show ?case by (simp add: update_inv)
next
  case (reach_ms s)
  then show ?case by (simp add: ms_step_inv)
next
  case (reach_unmount s)
  then show ?case by (simp add: unmount_inv)
qed




text \<open>
  Claim C9. With the phase idle and the day number equal to the displayed day, an update
  that changes only the distance makes the displayed distance the new one at once, leaves
  the phase idle and the displayed day as it was, and starts no timer.
\<close>

theorem distance_only_update:
  assumes "reachable s" and "textPhase s = Idle" and "dayNumber s = displayDay s"
    and "x \<noteq> distance s"
  shows "displayDist (update (dayNumber s) x s) = x
       \<and> textPhase (update (dayNumber s) x s) = Idle
       \<and> displayDay (update (dayNumber s) x s) = displayDay s
       \<and> set (pending (update (dayNumber s) x s)) \<subseteq> set (pending s)"
proof -
  have inv: "prevDay s = dayNumber s"
      "distDeps s = (distance s, textPhase s, dayNumber s, displayDay s)"
    using reachable_inv [OF assms(1)] by (simp_all add: label_inv_def)
  define s1 where "s1 = s\<lparr>dayNumber := dayNumber s, distance := x\<rparr>"
  define s2 where "s2 = transitionEffect (run_cleanup s1)"
  define s3 where "s3 = distanceEffect_seen s1 s2"
  have u: "update (dayNumber s) x s = distanceEffect s3"
    using assms(4) by (simp add: update_def Let_def s1_def s2_def s3_def)
  have same: "dayNumber (run_cleanup s1) = prevDay (run_cleanup s1)"
    using inv(1) by (simp add: run_cleanup_fields s1_def)
  note t = transition_same_day_fields [OF same, folded s2_def]
  have deps: "distDeps s2 \<noteq> (distance s1, textPhase s1, dayNumber s1, displayDay s1)"
    using t(7) inv(2) assms(4) by (simp add: run_cleanup_fields s1_def)
  have seen: "textPhase s1 = Idle" "dayNumber s1 = displayDay s1" "distance s1 = x"
    using assms(2,3) by (simp_all add: s1_def)
  have d3: "displayDist s3 = x"
    using deps seen by (simp add: s3_def distanceEffect_seen_dist)
  have x3: "distance s3 = x"
    using t(5) by (simp add: s3_def distanceEffect_seen_fields run_cleanup_fields s1_def)
  have p3: "textPhase s3 = Idle"
    using t(1) assms(2) by (simp add: s3_def distanceEffect_seen_fields run_cleanup_fields s1_def)
  have y3: "displayDay s3 = displayDay s"
    using t(2) by (simp add: s3_def distanceEffect_seen_fields run_cleanup_fields s1_def)
  have q3: "set (pending s3) \<subseteq> set (pending s)"
    using t(10) run_cleanup_fields(11) [of s1]
    by (simp add: s3_def distanceEffect_seen_fields s1_def)
  have "displayDist (update (dayNumber s) x s) = x"
    using d3 x3 by (simp add: u distanceEffect_dist)
  moreover have "textPhase (update (dayNumber s) x s) = Idle"
    using p3 by (simp add: u distanceEffect_fields)
  moreover have "displayDay (update (dayNumber s) x s) = displayDay s"
    using y3 by (simp add: u distanceEffect_fields)
  moreover have "set (pending (update (dayNumber s) x s)) \<subseteq> set (pending s)"
    using q3 by (simp add: u distanceEffect_fields)
  ultimately show ?thesis by simp
qed

theorem distance_only_update_witness:
  "reachable (mount 1 ''152.7km'') \<and> textPhase (mount 1 ''152.7km'') = Idle
   \<and> dayNumber (mount 1 ''152.7km'') = displayDay (mount 1 ''152.7km'')
   \<and> ''153.0km'' \<noteq> distance (mount 1 ''152.7km'')
   \<and> displayDist (update 1 ''153.0km'' (mount 1 ''152.7km'')) = ''153.0km''
   \<and> textPhase (update 1 ''153.0km'' (mount 1 ''152.7km'')) = Idle"
proof -
  let ?s = "mount 1 ''152.7km''"
  have r: "reachable ?s" by (rule reach_mount)
  have m: "textPhase ?s = Idle" "dayNumber ?s = displayDay ?s" "''153.0km'' \<noteq> distance ?s"
    "dayNumber ?s = 1"
    by (simp_all add: mount_def)
  show ?thesis
    using distance_only_update [OF r m(1) m(2) m(3)] r m by simp
qed

lemma first_cycle_entering_state:
  "first_cycle_entering =
     \<lparr>dayNumber = 2, distance = ''140.2km'', textPhase = Entering, displayDay = 2,
      displayDist = ''140.2km'', prevDay = 2, distDeps = (''140.2km'', Entering, 2, 2),
      cleanup = Some 0, mounted = True, clock = 300,
      pending = [\<lparr>timer_id = 1, due = 520, callback = EnterDone\<rparr>], next_id = 2\<rparr>"
proof -
  let ?S1 = "\<lparr>dayNumber = 2, distance = ''140.2km'', textPhase = Exiting, displayDay = 1,
      displayDist = ''152.7km'', prevDay = 2, distDeps = (''140.2km'', Exiting, 2, 1),
      cleanup = Some 0, mounted = True, clock = 0,
      pending = [\<lparr>timer_id = 0, due = 240, callback = ExitDone 2 ''140.2km''\<rparr>], next_id = 1\<rparr>"
  let ?S2 = "\<lparr>dayNumber = 2, distance = ''140.2km'', textPhase = Entering, displayDay = 2,
      displayDist = ''140.2km'', prevDay = 2, distDeps = (''140.2km'', Entering, 2, 2),
      cleanup = Some 0, mounted = True, clock = 240,
      pending = [\<lparr>timer_id = 1, due = 520, callback = EnterDone\<rparr>], next_id = 2\<rparr>"
  have s1: "update 2 ''140.2km'' (mount 1 ''152.7km'') = ?S1"
    by (simp add: update_def mount_def Let_def distanceEffect_def distanceEffect_seen_def
        transitionEffect_def setTimeout_def run_cleanup_def)
  have "advance (Suc 239) ?S1 = ms_step (?S1\<lparr>clock := clock ?S1 + 239\<rparr>)"
    by (rule advance_until_due) simp
  also have "\<dots> = ?S2"
    by (simp add: ms_step_def Let_def distanceEffect_def distanceEffect_seen_def setTimeout_def)
  finally have s2: "advance 240 ?S1 = ?S2" by simp
  have s3: "advance 60 ?S2 = ?S2\<lparr>clock := clock ?S2 + 60\<rparr>"
    by (rule advance_quiet) simp
  show ?thesis
    unfolding first_cycle_entering_def s1 s2 s3 by simp
qed

lemma rapid_change_state:
  "rapid_change =
     \<lparr>dayNumber = 3, distance = ''98.1km'', textPhase = Exiting, displayDay = 2,
      displayDist = ''140.2km'', prevDay = 3, distDeps = (''98.1km'', Exiting, 3, 2),
      cleanup = Some 2, mounted = True, clock = 300,
      pending = [\<lparr>timer_id = 1, due = 520, callback = EnterDone\<rparr>,
                 \<lparr>timer_id = 2, due = 540, callback = ExitDone 3 ''98.1km''\<rparr>], next_id = 3\<rparr>"
  unfolding rapid_change_def first_cycle_entering_state
  by (simp add: update_def Let_def distanceEffect_def distanceEffect_seen_def
      transitionEffect_def setTimeout_def run_cleanup_def clearTimeout_def)

text \<open>
  Claim C7 asks that a timer superseded by a new day change or by teardown never fires.
  In the rapid sequence the enter timer of the first cycle (due at 520 ms) is still queued
  after the second day change has started its exit phase; at 520 ms it fires and puts the
  phase to idle, 20 ms before the new exit timer is due and with day 2 still displayed
  for day 3. Unmounting in the entering phase leaves the enter timer queued as well.
\<close>

theorem stale_enter_timer_fires:
  "map callback (pending rapid_change) = [EnterDone, ExitDone 3 ''98.1km'']
   \<and> map due (pending rapid_change) = [520, 540]
   \<and> clock rapid_change = 300
   \<and> textPhase (advance 219 rapid_change) = Exiting
   \<and> textPhase (advance 220 rapid_change) = Idle
   \<and> displayDay (advance 220 rapid_change) = 2
   \<and> dayNumber (advance 220 rapid_change) = 3
   \<and> map callback (pending (advance 220 rapid_change)) = [ExitDone 3 ''98.1km'']
   \<and> map callback (pending (unmount first_cycle_entering)) = [EnterDone]"
proof -
  have q: "advance 219 rapid_change = rapid_change\<lparr>clock := clock rapid_change + 219\<rparr>"
    by (rule advance_quiet) (simp add: rapid_change_state)
  have "advance (Suc 219) rapid_change = ms_step (rapid_change\<lparr>clock := clock rapid_change + 219\<rparr>)"
    by (rule advance_until_due) (simp add: rapid_change_state)
  then have f: "advance 220 rapid_change = ms_step (rapid_change\<lparr>clock := clock rapid_change + 219\<rparr>)"
    by simp
  have u: "map callback (pending (unmount first_cycle_entering)) = [EnterDone]"
    unfolding first_cycle_entering_state
    by (simp add: unmount_def run_cleanup_def clearTimeout_def)
  show ?thesis
    unfolding q f u unfolding rapid_change_state
    by (simp add: ms_step_def Let_def distanceEffect_def distanceEffect_seen_def)
qed





end
